theory Spec2Isabelle
  imports Main "HOL-Library.AList" "HOL-Library.Multiset"
begin

section \<open>Python values, dictionaries and exceptions\<close>

text \<open>
  A Python \<open>dict\<close> keeps its keys in insertion order, so it is an association list:
  \<open>map_of d k\<close> reads a key, \<open>AList.update k v d\<close> overwrites the entry in place or
  appends a new one at the end, as \<open>d[k] = v\<close> does.

  Every \<open>raise\<close> of \<open>vllm/entrypoints/chat_utils.py\<close> is a constructor of \<open>error\<close>;
  the comment gives the Python exception class and its message.
\<close>

type_synonym ('k, 'v) dict = "('k \<times> 'v) list"

datatype error =
    LimitExceeded int string
      \<comment> \<open>ValueError: At most {allowed_count} {modality}(s) may be provided in one request.\<close>
  | MixedImageAndEmbeds
      \<comment> \<open>ValueError: Mixing raw image and embedding inputs is not allowed\<close>
  | MultipleImageEmbeds
      \<comment> \<open>ValueError: Only one message can have {'type': 'image_embeds'}\<close>
  | UnknownModelType string string
      \<comment> \<open>TypeError: Unknown {modality} model type: {model_type}\<close>
  | UnknownModality string
      \<comment> \<open>TypeError: Unknown modality: {modality}\<close>
  | PlaceholderAccounting string
      \<comment> \<open>ValueError: Found more '{placeholder}' placeholders in input prompt than
          actual multimodal data items.\<close>
  | MissingType
      \<comment> \<open>ValueError: Missing 'type' field in multimodal part.\<close>
  | InvalidType
      \<comment> \<open>ValueError: Invalid 'type' field in multimodal part.\<close>
  | UnknownPartType string
      \<comment> \<open>NotImplementedError: Unknown part type: {part_type}\<close>
  | IndexError
  | KeyError
  | AttributeError
  | UnboundLocalError
  | TypeError
  | AssertionError
  | StopIteration
  | FetchError string
      \<comment> \<open>whatever the media connector raises\<close>
  | JSONDecodeError
      \<comment> \<open>raised by \<open>json.loads\<close>\<close>

text \<open>The error kinds of the specification, read off the raise sites.\<close>

fun is_MixedModality :: "error \<Rightarrow> bool" where
  "is_MixedModality MixedImageAndEmbeds = True"
| "is_MixedModality MultipleImageEmbeds = True"
| "is_MixedModality _ = False"

fun is_LimitExceeded :: "error \<Rightarrow> bool" where
  "is_LimitExceeded (LimitExceeded _ _) = True"
| "is_LimitExceeded _ = False"

text \<open>\<open>str(n)\<close> for the counts interpolated into placeholders.\<close>

definition digit_char :: "nat \<Rightarrow> char" where
  "digit_char d = char_of (48 + d)"

function string_of_nat :: "nat \<Rightarrow> string" where
  "string_of_nat n =
     (if n < 10 then [digit_char n] else string_of_nat (n div 10) @ [digit_char (n mod 10)])"
  by pat_completeness auto
termination
  by (relation "measure id") auto

declare string_of_nat.simps [simp del]

definition string_of_int :: "int \<Rightarrow> string" where
  "string_of_int i = (if i < 0 then CHR ''-'' # string_of_nat (nat (- i)) else string_of_nat (nat i))"

section \<open>The placeholder catalog and the item tracker\<close>

text \<open>
  What \<open>BaseMultiModalItemTracker\<close> reads from \<open>model_config\<close> and the tokenizer:
  \<open>hf_config.model_type\<close>, the two token indices, the decoded token text
  (\<open>_cached_token_str\<close>; the tokenizer is outside this file, so its \<open>decode\<close> is a field)
  and \<open>multimodal_config.limit_per_prompt\<close> (\<open>None\<close> when there is no multimodal config).
\<close>

record model_config =
  model_type :: string
  image_token_index :: int
  video_token_index :: int
  token_str :: "int \<Rightarrow> string"
  limit_per_prompt :: "(string, int) dict option"

text \<open>
  An item is whatever the connector fetched; \<open>parse_image_embeds\<close> also stores a dict of
  fetched embeddings as one item.
\<close>

datatype 'a mm_item = Item 'a | EmbedsDict "(string, 'a) dict"

record 'a tracker =
  config :: model_config
  items_by_modality :: "(string, 'a list) dict"

definition allowed_items :: "'a tracker \<Rightarrow> (string, int) dict" where
  "allowed_items tr = (case limit_per_prompt (config tr) of None \<Rightarrow> [] | Some d \<Rightarrow> d)"

definition new_tracker :: "model_config \<Rightarrow> 'a tracker" where
  "new_tracker cfg = \<lparr>config = cfg, items_by_modality = []\<rparr>"

definition startswith :: "string \<Rightarrow> string \<Rightarrow> bool" where
  "startswith s p = (take (length p) s = p)"

definition placeholder_str :: "model_config \<Rightarrow> string \<Rightarrow> int \<Rightarrow> error + string option" where
  "placeholder_str cfg modality current_count =
    (let mt = model_type cfg in
     if modality \<in> set [''image'', ''image_embeds''] then
       if mt = ''chatglm'' then Inr (Some ''<|begin_of_image|><|endoftext|><|end_of_image|>'')
       else if mt = ''phi3_v'' then Inr (Some (''<|image_'' @ string_of_int current_count @ ''|>''))
       else if mt = ''phi4mm'' then Inr (Some ''<|endoftext10|>'')
       else if mt \<in> set [''minicpmo'', ''minicpmv''] then Inr (Some ''(<image>./</image>)'')
       else if mt \<in> set [''blip-2'', ''fuyu'', ''paligemma'', ''pixtral''] then Inr None
       else if mt = ''qwen'' then
         Inr (Some (''Picture '' @ string_of_int current_count @ '': <img></img>''))
       else if startswith mt ''llava'' then Inr (Some (token_str cfg (image_token_index cfg)))
       else if mt \<in> set [''chameleon'', ''deepseek_vl_v2'', ''internvl_chat'', ''NVLM_D'',
                          ''h2ovl_chat''] then Inr (Some ''<image>'')
       else if mt = ''mllama'' then Inr (Some ''<|image|>'')
       else if mt \<in> set [''qwen2_vl'', ''qwen2_5_vl''] then
         Inr (Some ''<|vision_start|><|image_pad|><|vision_end|>'')
       else if mt = ''molmo'' then Inr (Some '''')
       else if mt = ''idefics3'' then Inr (Some ''<image>'')
       else if mt = ''aria'' then Inr (Some ''<|fim_prefix|><|img|><|fim_suffix|>'')
       else if mt = ''gemma3'' then Inr (Some ''<start_of_image>'')
       else Inl (UnknownModelType modality mt)
     else if modality = ''audio'' then
       if mt = ''ultravox'' then Inr (Some ''<|audio|>'')
       else if mt = ''phi4mm'' then Inr (Some ''<|endoftext11|>'')
       else if mt = ''qwen2_audio'' then
         Inr (Some (''Audio '' @ string_of_int current_count @ '': <|audio_bos|><|AUDIO|><|audio_eos|>''))
       else if mt = ''minicpmo'' then Inr (Some ''(<audio>./</audio>)'')
       else Inl (UnknownModelType '''' mt)
     else if modality = ''video'' then
       if mt \<in> set [''qwen2_vl'', ''qwen2_5_vl''] then
         Inr (Some ''<|vision_start|><|video_pad|><|vision_end|>'')
       else if mt \<in> set [''minicpmo'', ''minicpmv''] then Inr (Some ''(<video>./</video>)'')
       else if startswith mt ''llava'' then Inr (Some (token_str cfg (video_token_index cfg)))
       else Inl (UnknownModelType modality mt)
     else Inl (UnknownModality modality))"

text \<open>
  \<open>_items_by_modality\<close> is a \<open>defaultdict(list)\<close>: reading a missing key stores an
  empty list under it and returns that list. \<open>defaultdict_get\<close> returns the dict after
  the read together with the list read.
\<close>

definition defaultdict_get :: "(string, 'a list) dict \<Rightarrow> string \<Rightarrow> (string, 'a list) dict \<times> 'a list" where
  "defaultdict_get d k =
     (case map_of d k of None \<Rightarrow> (AList.update k [] d, []) | Some xs \<Rightarrow> (d, xs))"

definition dict_get_default :: "('k, 'v) dict \<Rightarrow> 'k \<Rightarrow> 'v \<Rightarrow> 'v" where
  "dict_get_default d k dflt = (case map_of d k of None \<Rightarrow> dflt | Some v \<Rightarrow> v)"

text \<open>
  \<open>BaseMultiModalItemTracker.add\<close>. The tracker is mutated, so the tracker after the call
  is returned together with the call's outcome, also when the call raises.
\<close>

definition add :: "'a tracker \<Rightarrow> string \<Rightarrow> 'a \<Rightarrow> 'a tracker \<times> (error + string option)" where
  "add tr modality item =
    (let allowed_count = dict_get_default (allowed_items tr) modality 1;
         (d1, xs) = defaultdict_get (items_by_modality tr) modality;
         current_count = int (length xs) + 1
     in if current_count > allowed_count
        then (tr\<lparr>items_by_modality := d1\<rparr>, Inl (LimitExceeded allowed_count modality))
        else (tr\<lparr>items_by_modality := AList.update modality (xs @ [item]) d1\<rparr>,
              placeholder_str (config tr) modality current_count))"

text \<open>Calling \<open>add\<close> once per item, for one modality, keeping every call's outcome.\<close>

fun add_all :: "'a tracker \<Rightarrow> string \<Rightarrow> 'a list \<Rightarrow> 'a tracker \<times> (error + string option) list" where
  "add_all tr modality [] = (tr, [])"
| "add_all tr modality (x # xs) =
     (let (tr1, r) = add tr modality x;
          (tr2, rs) = add_all tr1 modality xs
      in (tr2, r # rs))"

text \<open>
  The values of the returned \<open>MultiModalDataDict\<close>: the list of a modality's items, or
  the single embeddings item.
\<close>

datatype 'a mm_value = Single 'a | Many "'a list"

definition mm_inputs_of :: "(string, 'a list) dict \<Rightarrow> error + (string, 'a mm_value) dict" where
  "mm_inputs_of items =
    (if map_of items ''image'' \<noteq> None \<and> map_of items ''image_embeds'' \<noteq> None
     then Inl MixedImageAndEmbeds
     else
       case (case map_of items ''image_embeds'' of
               None \<Rightarrow> Inr []
             | Some image_embeds_lst \<Rightarrow>
                 if length image_embeds_lst > 1 then Inl MultipleImageEmbeds
                 else (case image_embeds_lst of
                         [] \<Rightarrow> Inl IndexError
                       | e # _ \<Rightarrow> Inr [(''image'', Single e)])) of
         Inl err \<Rightarrow> Inl err
       | Inr m0 \<Rightarrow>
           let m1 = (case map_of items ''image'' of
                       None \<Rightarrow> m0 | Some xs \<Rightarrow> AList.update ''image'' (Many xs) m0);
               m2 = (case map_of items ''audio'' of
                       None \<Rightarrow> m1 | Some xs \<Rightarrow> AList.update ''audio'' (Many xs) m1);
               m3 = (case map_of items ''video'' of
                       None \<Rightarrow> m2 | Some xs \<Rightarrow> AList.update ''video'' (Many xs) m2)
           in Inr m3)"

text \<open>\<open>MultiModalItemTracker.all_mm_data\<close>: \<open>None\<close> when no modality key exists.\<close>

definition all_mm_data :: "'a tracker \<Rightarrow> error + (string, 'a mm_value) dict option" where
  "all_mm_data tr =
    (if items_by_modality tr = [] then Inr None
     else map_sum id Some (mm_inputs_of (items_by_modality tr)))"

text \<open>
  In the concurrent tracker an item is an awaitable; awaiting it gives a value or raises.
  \<open>asyncio.gather\<close> raises when one of its awaitables raises. Which failure wins when
  several awaitables fail depends on timing; the model takes the first in list order, and
  no theorem below depends on that choice.
\<close>

type_synonym 'a awaitable = "error + 'a"

fun gather :: "'a awaitable list \<Rightarrow> error + 'a list" where
  "gather [] = Inr []"
| "gather (Inl e # _) = Inl e"
| "gather (Inr v # ws) = (case gather ws of Inl e \<Rightarrow> Inl e | Inr vs \<Rightarrow> Inr (v # vs))"

fun gather_items :: "(string, 'a awaitable list) dict \<Rightarrow> error + (string, 'a list) dict" where
  "gather_items [] = Inr []"
| "gather_items ((modality, items) # rest) =
     (case gather items of
        Inl e \<Rightarrow> Inl e
      | Inr vs \<Rightarrow> (case gather_items rest of Inl e \<Rightarrow> Inl e | Inr d \<Rightarrow> Inr ((modality, vs) # d)))"

definition async_all_mm_data :: "'a awaitable tracker \<Rightarrow> error + (string, 'a mm_value) dict option" where
  "async_all_mm_data tr =
    (if items_by_modality tr = [] then Inr None
     else case gather_items (items_by_modality tr) of
            Inl e \<Rightarrow> Inl e
          | Inr items \<Rightarrow> map_sum id Some (mm_inputs_of items))"

text \<open>The items recorded for a modality; a modality without a key has none.\<close>

definition recorded :: "'a tracker \<Rightarrow> string \<Rightarrow> 'a list" where
  "recorded tr modality = dict_get_default (items_by_modality tr) modality []"

definition allowed_count :: "'a tracker \<Rightarrow> string \<Rightarrow> int" where
  "allowed_count tr modality = dict_get_default (allowed_items tr) modality 1"

text \<open>
  Every modality key holds at least one item. A new tracker has no key; \<open>add\<close> stores
  the key before it checks the limit, so a call rejected for its limit can leave a key
  with an empty list, and a call that is not rejected appends its item. \<open>rejected\<close>
  says that a call's outcome is the limit's \<open>ValueError\<close>.
\<close>

definition no_empty_list :: "'a tracker \<Rightarrow> bool" where
  "no_empty_list tr = (\<forall>(k, xs) \<in> set (items_by_modality tr). xs \<noteq> [])"

definition rejected :: "error + 'b \<Rightarrow> bool" where
  "rejected outcome = (case outcome of Inl e \<Rightarrow> is_LimitExceeded e | Inr _ \<Rightarrow> False)"

definition items_mapping :: "(string, 'a list) dict \<Rightarrow> (string, 'a mm_value) dict" where
  "items_mapping items = map (\<lambda>(k, xs). (k, Many xs)) items"

definition finalized_value :: "'a tracker \<Rightarrow> string \<Rightarrow> 'a mm_value option" where
  "finalized_value tr k =
     (if k = ''image'' then
        (case recorded tr ''image_embeds'' of
           [] \<Rightarrow> map_option Many (map_of (items_by_modality tr) ''image'')
         | e # _ \<Rightarrow> Some (Single e))
      else if k = ''audio'' \<or> k = ''video'' then map_option Many (map_of (items_by_modality tr) k)
      else None)"

definition gpt2_config :: model_config where
  "gpt2_config = \<lparr>model_type = ''gpt2'', image_token_index = 0, video_token_index = 0,
                   token_str = (\<lambda>_. []), limit_per_prompt = None\<rparr>"

definition mllama_config :: "(string, int) dict \<Rightarrow> model_config" where
  "mllama_config limits = \<lparr>model_type = ''mllama'', image_token_index = 0, video_token_index = 0,
                   token_str = (\<lambda>_. []), limit_per_prompt = Some limits\<rparr>"

definition minicpmo_config :: "(string, int) dict \<Rightarrow> model_config" where
  "minicpmo_config limits = \<lparr>model_type = ''minicpmo'', image_token_index = 0, video_token_index = 0,
                   token_str = (\<lambda>_. []), limit_per_prompt = Some limits\<rparr>"

definition all_resolved :: "(string, 'a awaitable list) dict \<Rightarrow> bool" where
  "all_resolved d = (\<forall>(k, ws) \<in> set d. \<forall>w \<in> set ws. isl w = False)"

definition resolved :: "(string, 'a awaitable list) dict \<Rightarrow> (string, 'a list) dict" where
  "resolved d = map (\<lambda>(k, ws). (k, map projr ws)) d"

section \<open>Placeholder back-fill for the flat format\<close>

text \<open>
  \<open>str.count(sub)\<close>: the occurrences of \<open>sub\<close> found scanning left to right without
  overlap; for the empty \<open>sub\<close> Python answers \<open>len(s) + 1\<close>.
\<close>

function str_count :: "string \<Rightarrow> string \<Rightarrow> nat" where
  "str_count s sub =
     (if sub = [] then length s + 1
      else if s = [] then 0
      else if take (length sub) s = sub then Suc (str_count (drop (length sub) s) sub)
      else str_count (tl s) sub)"
  by pat_completeness auto
termination
  by (relation "measure (\<lambda>(s, sub). length s)") auto

declare str_count.simps [simp del]

definition newline :: string where
  "newline = [CHR 0x0A]"

text \<open>\<open>sep.join(xs)\<close>\<close>

fun join :: "string \<Rightarrow> string list \<Rightarrow> string" where
  "join sep [] = []"
| "join sep [x] = x"
| "join sep (x # y # ys) = x @ sep @ join sep (y # ys)"

text \<open>
  The loop of \<open>_get_full_multimodal_text_prompt\<close> over the keys of
  \<open>placeholder_counts\<close>, with the dict it updates and the list \<open>missing_placeholders\<close>
  it extends.
\<close>

fun backfill_loop :: "string list \<Rightarrow> (string, int) dict \<Rightarrow> string \<Rightarrow> string list \<Rightarrow> error + string list" where
  "backfill_loop [] placeholder_counts text_prompt missing_placeholders = Inr missing_placeholders"
| "backfill_loop (placeholder # rest) placeholder_counts text_prompt missing_placeholders =
     (case map_of placeholder_counts placeholder of
        None \<Rightarrow> Inl KeyError
      | Some c \<Rightarrow>
          let remaining = c - int (str_count text_prompt placeholder);
              counts1 = AList.update placeholder remaining placeholder_counts
          in if remaining < 0 then Inl (PlaceholderAccounting placeholder)
             else backfill_loop rest counts1 text_prompt
                    (missing_placeholders @ replicate (nat remaining) placeholder))"

definition get_full_multimodal_text_prompt :: "(string, int) dict \<Rightarrow> string \<Rightarrow> error + string" where
  "get_full_multimodal_text_prompt placeholder_counts text_prompt =
     (case backfill_loop (map fst placeholder_counts) placeholder_counts text_prompt [] of
        Inl e \<Rightarrow> Inl e
      | Inr missing_placeholders \<Rightarrow> Inr (join newline (missing_placeholders @ [text_prompt])))"

text \<open>
  The back-fill as the specification words it: per placeholder, the copies still missing
  after subtracting the occurrences in the body, in the order of the dict.
\<close>

definition missing_copies :: "(string, int) dict \<Rightarrow> string \<Rightarrow> string list" where
  "missing_copies counts body =
     concat (map (\<lambda>(p, c). replicate (nat (c - int (str_count body p))) p) counts)"

definition first_overused :: "(string, int) dict \<Rightarrow> string \<Rightarrow> (string \<times> int) option" where
  "first_overused counts body = find (\<lambda>(p, c). c < int (str_count body p)) counts"

section \<open>Content parts\<close>

text \<open>
  A content part, a message and a tool call's arguments are JSON-like Python values.
\<close>

datatype json =
    JNull
  | JBool bool
  | JInt int
  | JStr string
  | JList "json list"
  | JDict "(string \<times> json) list"

text \<open>Python's truth value, as \<open>if x\<close> and \<open>not x\<close> read it.\<close>

fun truthy :: "json \<Rightarrow> bool" where
  "truthy JNull = False"
| "truthy (JBool b) = b"
| "truthy (JInt i) = (i \<noteq> 0)"
| "truthy (JStr s) = (s \<noteq> [])"
| "truthy (JList xs) = (xs \<noteq> [])"
| "truthy (JDict d) = (d \<noteq> [])"

text \<open>\<open>d.get(k)\<close>, which is \<open>None\<close> for a missing key.\<close>

definition dict_get :: "(string, json) dict \<Rightarrow> string \<Rightarrow> json" where
  "dict_get d k = dict_get_default d k JNull"

text \<open>
  \<open>part.get(field, {}).get("url", "")\<close>: the second \<open>get\<close> raises \<open>AttributeError\<close> when
  the field holds something that is not a dict.
\<close>

definition get_url :: "(string, json) dict \<Rightarrow> string \<Rightarrow> error + json" where
  "get_url part field =
     (case dict_get_default part field (JDict []) of
        JDict d \<Rightarrow> Inr (dict_get_default d ''url'' (JStr []))
      | _ \<Rightarrow> Inl AttributeError)"

definition MM_PARSER_MAP :: "(string, (string, json) dict \<Rightarrow> error + json) dict" where
  "MM_PARSER_MAP =
     [(''text'', \<lambda>part. Inr (dict_get_default part ''text'' (JStr []))),
      (''image_url'', \<lambda>part. get_url part ''image_url''),
      (''image_embeds'', \<lambda>part. Inr (dict_get_default part ''image_embeds'' (JDict []))),
      (''audio_url'', \<lambda>part. get_url part ''audio_url''),
      (''input_audio'', \<lambda>part. Inr (dict_get_default part ''input_audio'' (JDict []))),
      (''refusal'', \<lambda>part. Inr (dict_get_default part ''refusal'' (JStr []))),
      (''video_url'', \<lambda>part. get_url part ''video_url'')]"

text \<open>The two \<open>logger.warning\<close> calls of part parsing.\<close>

datatype warning =
    DetailIgnored
      \<comment> \<open>'image_url.detail' is currently not supported and will be ignored.\<close>
  | SkippingEmpty string
      \<comment> \<open>Skipping multimodal part (type: '%s') with empty / unparsable content.\<close>

definition parse_chat_message_content_mm_part :: "json \<Rightarrow> warning list \<times> (error + string \<times> json)" where
  "parse_chat_message_content_mm_part part =
     (case part of
        JDict d \<Rightarrow>
          (case dict_get d ''type'' of
             JStr part_type \<Rightarrow>
               (case map_of MM_PARSER_MAP part_type of
                  Some parser \<Rightarrow>
                    (case parser d of
                       Inl e \<Rightarrow> ([], Inl e)
                     | Inr content \<Rightarrow>
                         (if part_type = ''image_url''
                             \<and> dict_get_default d ''detail'' (JStr ''auto'') \<noteq> JStr ''auto''
                          then [DetailIgnored] else [],
                          Inr (part_type, content)))
                | None \<Rightarrow> ([], Inr (part_type, JStr ''unknown part_type content'')))
           | JNull \<Rightarrow>
               if dict_get d ''image_url'' \<noteq> JNull
               then ([], Inr (''image_url'', dict_get_default d ''image_url'' (JStr [])))
               else if dict_get d ''audio_url'' \<noteq> JNull
               then ([], Inr (''audio_url'', dict_get_default d ''audio_url'' (JStr [])))
               else if dict_get d ''input_audio'' \<noteq> JNull
               then ([], Inr (''input_audio'', JDict d))
               else if dict_get d ''video_url'' \<noteq> JNull
               then ([], Inr (''video_url'', dict_get_default d ''video_url'' (JStr [])))
               else ([], Inl MissingType)
           | _ \<Rightarrow> ([], Inl InvalidType))
      | _ \<Rightarrow> ([], Inl AssertionError))"

definition VALID_MESSAGE_CONTENT_MM_PART_TYPES :: "string list" where
  "VALID_MESSAGE_CONTENT_MM_PART_TYPES =
     [''text'', ''refusal'', ''image_url'', ''image_embeds'', ''audio_url'', ''input_audio'',
      ''video_url'']"

text \<open>
  The abstract methods of \<open>BaseMultiModalContentParser\<close>, over the parser's state: each
  returns the state after the call and the exception it raised, if any. Part parsing is
  written once over these methods, as in the source; the blocking and the concurrent
  parser are two instances.
\<close>

record 's parser_ops =
  parse_image :: "json \<Rightarrow> 's \<Rightarrow> 's \<times> error option"
  parse_image_embeds :: "json \<Rightarrow> 's \<Rightarrow> 's \<times> error option"
  parse_audio :: "json \<Rightarrow> 's \<Rightarrow> 's \<times> error option"
  parse_input_audio :: "json \<Rightarrow> 's \<Rightarrow> 's \<times> error option"
  parse_video :: "json \<Rightarrow> 's \<Rightarrow> 's \<times> error option"

text \<open>
  A media branch of \<open>_parse_chat_message_content_part\<close>: call the parser's method, then
  return the marker dict when \<open>wrap_dicts\<close> and \<open>None\<close> otherwise.
\<close>

definition media_part :: "(json \<Rightarrow> 's \<Rightarrow> 's \<times> error option) \<Rightarrow> json \<Rightarrow> 's \<Rightarrow> string \<Rightarrow> bool
    \<Rightarrow> 's \<times> (error + json option)" where
  "media_part method content st kind wrap_dicts =
     (case method content st of
        (st1, Some e) \<Rightarrow> (st1, Inl e)
      | (st1, None) \<Rightarrow>
          (st1, Inr (if wrap_dicts then Some (JDict [(''type'', JStr kind)]) else None)))"

definition parse_chat_message_content_part :: "'s parser_ops \<Rightarrow> json \<Rightarrow> 's \<Rightarrow> bool
    \<Rightarrow> ('s \<times> warning list) \<times> (error + json option)" where
  "parse_chat_message_content_part mm_parser part st wrap_dicts =
     (case part of
        JStr s \<Rightarrow> ((st, []), Inr (Some (JStr s)))
      | _ \<Rightarrow>
        (case parse_chat_message_content_mm_part part of
           (w, Inl e) \<Rightarrow> ((st, w), Inl e)
         | (w, Inr (part_type, content)) \<Rightarrow>
             if part_type \<in> set VALID_MESSAGE_CONTENT_MM_PART_TYPES \<and> \<not> truthy content
             then ((st, w @ [SkippingEmpty part_type]), Inr None)
             else if part_type \<in> set [''text'', ''refusal'']
             then ((st, w),
                   Inr (Some (if wrap_dicts
                              then JDict [(''type'', JStr ''text''), (''text'', content)]
                              else content)))
             else
               let (st1, r) =
                 (if part_type = ''image_url''
                  then media_part (parse_image mm_parser) content st ''image'' wrap_dicts
                  else if part_type = ''image_embeds''
                  then media_part (parse_image_embeds mm_parser) content st ''image'' wrap_dicts
                  else if part_type = ''audio_url''
                  then media_part (parse_audio mm_parser) content st ''audio'' wrap_dicts
                  else if part_type = ''input_audio''
                  then media_part (parse_input_audio mm_parser) content st ''audio'' wrap_dicts
                  else if part_type = ''video_url''
                  then media_part (parse_video mm_parser) content st ''video'' wrap_dicts
                  else (st, Inl (UnknownPartType part_type)))
               in ((st1, w), r)))"


section \<open>The blocking content parser\<close>

text \<open>
  \<open>MediaConnector\<close> is outside this file: its four blocking fetches are fields, each
  returning the fetched value or the exception it raised. \<open>str_of\<close> is Python's \<open>str\<close>
  as the f-string of \<open>parse_input_audio\<close> applies it.
\<close>

record 'a connector =
  fetch_image :: "json \<Rightarrow> error + 'a"
  fetch_image_embedding :: "json \<Rightarrow> error + 'a"
  fetch_audio :: "json \<Rightarrow> error + 'a"
  fetch_video :: "json \<Rightarrow> error + 'a"
  str_of :: "json \<Rightarrow> string"

record 'a mm_parser =
  mm_tracker :: "'a mm_item tracker"
  placeholder_counts :: "(string, int) dict"

definition create_parser :: "'a mm_item tracker \<Rightarrow> 'a mm_parser" where
  "create_parser tr = \<lparr>mm_tracker = tr, placeholder_counts = []\<rparr>"

text \<open>\<open>_add_placeholder\<close>: \<open>None\<close> and the empty string are not counted.\<close>

definition add_placeholder :: "string option \<Rightarrow> 'a mm_parser \<Rightarrow> 'a mm_parser" where
  "add_placeholder placeholder st =
     (case placeholder of
        None \<Rightarrow> st
      | Some p \<Rightarrow>
          if p = [] then st
          else st\<lparr>placeholder_counts :=
                    AList.update p (dict_get_default (placeholder_counts st) p 0 + 1)
                      (placeholder_counts st)\<rparr>)"

text \<open>\<open>placeholder = self._tracker.add(modality, item); self._add_placeholder(placeholder)\<close>\<close>

definition track :: "string \<Rightarrow> 'a mm_item \<Rightarrow> 'a mm_parser \<Rightarrow> 'a mm_parser \<times> error option" where
  "track modality item st =
     (case add (mm_tracker st) modality item of
        (tr1, Inl e) \<Rightarrow> (st\<lparr>mm_tracker := tr1\<rparr>, Some e)
      | (tr1, Inr placeholder) \<Rightarrow> (add_placeholder placeholder (st\<lparr>mm_tracker := tr1\<rparr>), None))"

definition fetch_and_track :: "(json \<Rightarrow> error + 'a) \<Rightarrow> string \<Rightarrow> json \<Rightarrow> 'a mm_parser
    \<Rightarrow> 'a mm_parser \<times> error option" where
  "fetch_and_track fetch modality url st =
     (case fetch url of
        Inl e \<Rightarrow> (st, Some e)
      | Inr v \<Rightarrow> track modality (Item v) st)"

text \<open>The dict comprehension \<open>{k: fetch_image_embedding(v) for k, v in image_embeds.items()}\<close>\<close>

fun fetch_embeds :: "(json \<Rightarrow> error + 'a) \<Rightarrow> (string, json) dict \<Rightarrow> error + (string, 'a) dict" where
  "fetch_embeds fetch [] = Inr []"
| "fetch_embeds fetch ((k, v) # rest) =
     (case fetch v of
        Inl e \<Rightarrow> Inl e
      | Inr x \<Rightarrow> (case fetch_embeds fetch rest of Inl e \<Rightarrow> Inl e | Inr d \<Rightarrow> Inr ((k, x) # d)))"

definition sync_parse_image_embeds :: "'a connector \<Rightarrow> json \<Rightarrow> 'a mm_parser \<Rightarrow> 'a mm_parser \<times> error option" where
  "sync_parse_image_embeds conn image_embeds st =
     (case image_embeds of
        JDict d \<Rightarrow>
          (case fetch_embeds (fetch_image_embedding conn) d of
             Inl e \<Rightarrow> (st, Some e)
           | Inr embeds \<Rightarrow> track ''image_embeds'' (EmbedsDict embeds) st)
      | JStr s \<Rightarrow> fetch_and_track (fetch_image_embedding conn) ''image_embeds'' (JStr s) st
      | _ \<Rightarrow> (st, Some UnboundLocalError))"

definition sync_parse_input_audio :: "'a connector \<Rightarrow> json \<Rightarrow> 'a mm_parser \<Rightarrow> 'a mm_parser \<times> error option" where
  "sync_parse_input_audio conn input_audio st =
     (case input_audio of
        JDict d \<Rightarrow>
          let audio_data = dict_get_default d ''data'' (JStr []);
              audio_format = dict_get_default d ''format'' (JStr []);
              audio_url = ''data:audio/'' @ str_of conn audio_format @ '';base64,''
                            @ str_of conn audio_data
          in fetch_and_track (fetch_audio conn) ''audio'' (JStr audio_url) st
      | _ \<Rightarrow> (st, Some AttributeError))"

definition MultiModalContentParser :: "'a connector \<Rightarrow> 'a mm_parser parser_ops" where
  "MultiModalContentParser conn =
     \<lparr>parse_image = fetch_and_track (fetch_image conn) ''image'',
      parse_image_embeds = sync_parse_image_embeds conn,
      parse_audio = fetch_and_track (fetch_audio conn) ''audio'',
      parse_input_audio = sync_parse_input_audio conn,
      parse_video = fetch_and_track (fetch_video conn) ''video''\<rparr>"

section \<open>Parsing the parts of one message\<close>

text \<open>
  A tool call is a dict whose entry \<open>function\<close> is again a dict, and
  \<open>_postprocess_messages\<close> assigns to the entry \<open>arguments\<close> of that inner dict.
  \<open>_parse_chat_message_content\<close> copies the list of tool calls
  (\<open>list(parsed_msg["tool_calls"])\<close>), not the dicts in it: the conversation shares them
  with the caller's messages, and two tool calls can be the same object. The inner dicts
  therefore live in a store, and a tool call holds the address of its own. Of the inner
  dict the model keeps \<open>arguments\<close> and, in \<open>function_rest\<close>, everything else; of the
  tool call, the address in \<open>call_function\<close> and, in \<open>call_rest\<close>, everything else.
\<close>

type_synonym addr = nat

record function_dict =
  arguments :: json
  function_rest :: json

type_synonym store = "addr \<Rightarrow> function_dict"

record tool_call =
  call_function :: addr
  call_rest :: json

text \<open>
  \<open>ConversationMessage\<close>. \<open>msg_tool_calls\<close> is \<open>None\<close> when the key \<open>tool_calls\<close> is
  absent or does not hold a list.
\<close>

record conversation_message =
  msg_role :: string
  msg_content :: json
  msg_name :: "string option"
  msg_tool_call_id :: "json option"
  msg_tool_calls :: "tool_call list option"

text \<open>\<open>ConversationMessage(role=role, content=content)\<close>\<close>

definition ConversationMessage :: "string \<Rightarrow> json \<Rightarrow> conversation_message" where
  "ConversationMessage role content =
     \<lparr>msg_role = role, msg_content = content, msg_name = None, msg_tool_call_id = None,
      msg_tool_calls = None\<rparr>"

text \<open>
  The loop of \<open>_parse_chat_message_content_parts\<close>: the parser state, the warnings logged
  and the list \<open>content\<close> are threaded; an exception ends the loop.
\<close>

fun parts_loop :: "'s parser_ops \<Rightarrow> json list \<Rightarrow> bool \<Rightarrow> 's \<Rightarrow> warning list \<Rightarrow> json list
    \<Rightarrow> ('s \<times> warning list) \<times> (error + json list)" where
  "parts_loop mm_parser [] wrap_dicts st log content = ((st, log), Inr content)"
| "parts_loop mm_parser (part # parts) wrap_dicts st log content =
     (case parse_chat_message_content_part mm_parser part st wrap_dicts of
        ((st1, w), Inl e) \<Rightarrow> ((st1, log @ w), Inl e)
      | ((st1, w), Inr parse_res) \<Rightarrow>
          parts_loop mm_parser parts wrap_dicts st1 (log @ w)
            (case parse_res of
               None \<Rightarrow> content
             | Some v \<Rightarrow> if truthy v then content @ [v] else content))"

text \<open>\<open>"\n".join(texts)\<close> raises \<open>TypeError\<close> on an element that is not a string.\<close>

fun texts_of :: "json list \<Rightarrow> error + string list" where
  "texts_of [] = Inr []"
| "texts_of (JStr s # rest) = (case texts_of rest of Inl e \<Rightarrow> Inl e | Inr ss \<Rightarrow> Inr (s # ss))"
| "texts_of (_ # rest) = Inl TypeError"

definition parse_chat_message_content_parts :: "'a mm_parser parser_ops \<Rightarrow> string \<Rightarrow> json list
    \<Rightarrow> 'a mm_item tracker \<Rightarrow> bool
    \<Rightarrow> ('a mm_item tracker \<times> warning list) \<times> (error + conversation_message list)" where
  "parse_chat_message_content_parts mm_parser role parts tr wrap_dicts =
     (case parts_loop mm_parser parts wrap_dicts (create_parser tr) [] [] of
        ((st, log), Inl e) \<Rightarrow> ((mm_tracker st, log), Inl e)
      | ((st, log), Inr content) \<Rightarrow>
          ((mm_tracker st, log),
           if wrap_dicts then Inr [ConversationMessage role (JList content)]
           else
             case texts_of content of
               Inl e \<Rightarrow> Inl e
             | Inr texts \<Rightarrow>
                 let text_prompt = join newline texts;
                     mm_placeholder_counts = placeholder_counts st
                 in if mm_placeholder_counts \<noteq> []
                    then (case get_full_multimodal_text_prompt mm_placeholder_counts text_prompt of
                            Inl e \<Rightarrow> Inl e
                          | Inr text_prompt1 \<Rightarrow> Inr [ConversationMessage role (JStr text_prompt1)])
                    else Inr [ConversationMessage role (JStr text_prompt)]))"

section \<open>Decoding tool-call arguments\<close>

text \<open>
  \<open>json.loads\<close> is the standard library's: it is a parameter, applied to a string; a
  value that is not a string makes it raise \<open>TypeError\<close>.
\<close>

definition py_json_loads :: "(string \<Rightarrow> error + json) \<Rightarrow> json \<Rightarrow> error + json" where
  "py_json_loads loads v = (case v of JStr s \<Rightarrow> loads s | _ \<Rightarrow> Inl TypeError)"

text \<open>
  The inner loop of \<open>_postprocess_messages\<close> over the tool calls of one message, and the
  outer loop over the messages. Each visit reads \<open>item["function"]["arguments"]\<close> from the
  store, decodes it and writes the result back; an exception ends the pass and leaves the
  store as the visits before it made it. The messages themselves are only read.
\<close>

fun decode_calls :: "(string \<Rightarrow> error + json) \<Rightarrow> tool_call list \<Rightarrow> store
    \<Rightarrow> store \<times> (error + unit)" where
  "decode_calls loads [] st = (st, Inr ())"
| "decode_calls loads (item # rest) st =
     (case py_json_loads loads (arguments (st (call_function item))) of
        Inl e \<Rightarrow> (st, Inl e)
      | Inr v \<Rightarrow>
          decode_calls loads rest
            (st(call_function item := (st (call_function item))\<lparr>arguments := v\<rparr>)))"

fun postprocess_messages :: "(string \<Rightarrow> error + json) \<Rightarrow> conversation_message list \<Rightarrow> store
    \<Rightarrow> store \<times> (error + unit)" where
  "postprocess_messages loads [] st = (st, Inr ())"
| "postprocess_messages loads (message # rest) st =
     (case (if msg_role message = ''assistant'' then msg_tool_calls message else None) of
        None \<Rightarrow> postprocess_messages loads rest st
      | Some calls \<Rightarrow>
          (case decode_calls loads calls st of
             (st1, Inl e) \<Rightarrow> (st1, Inl e)
           | (st1, Inr u) \<Rightarrow> postprocess_messages loads rest st1))"

section \<open>The template's syntax tree\<close>

text \<open>
  The template engine is outside this file. The analyzer reads its tree through a small
  interface, which is what the model keeps of \<open>jinja2.nodes\<close>: the node classes the
  analyzer tests with \<open>isinstance\<close>, with the fields it reads, and \<open>Other\<close> for every
  other class, holding the child nodes in field order. \<open>Filter\<close> and \<open>Test\<close> keep, after
  the filtered node and the name, their remaining child nodes; the filtered node of a
  \<open>Filter\<close> may be \<open>None\<close>. A \<open>Const\<close> holds a Python constant.
\<close>

datatype node =
    Name string string
  | Const json
  | Getitem node node
  | Getattr node string
  | Filter "node option" string "node list"
  | Test node string "node list"
  | Slice "node option" "node option" "node option"
  | Assign node node
  | For node node "node list" "node list" "node option" bool
  | Other "node list"

fun opt_list :: "'a option \<Rightarrow> 'a list" where
  "opt_list None = []"
| "opt_list (Some x) = [x]"

text \<open>\<open>Node.iter_child_nodes\<close>: the child nodes, field by field.\<close>

fun iter_child_nodes :: "node \<Rightarrow> node list" where
  "iter_child_nodes (Name _ _) = []"
| "iter_child_nodes (Const _) = []"
| "iter_child_nodes (Getitem n arg) = [n, arg]"
| "iter_child_nodes (Getattr n _) = [n]"
| "iter_child_nodes (Filter n _ args) = opt_list n @ args"
| "iter_child_nodes (Test n _ args) = n # args"
| "iter_child_nodes (Slice start stop step) = opt_list start @ opt_list stop @ opt_list step"
| "iter_child_nodes (Assign target n) = [target, n]"
| "iter_child_nodes (For target iter body orelse test _) = [target, iter] @ body @ orelse @ opt_list test"
| "iter_child_nodes (Other children) = children"

lemma size_in_list: "(child :: node) \<in> set xs \<Longrightarrow> size child \<le> size_list size xs"
  by (induction xs) auto

lemma size_in_opt_list: "(child :: node) \<in> set (opt_list x) \<Longrightarrow> size child \<le> size_option size x"
  by (cases x) simp_all

lemma iter_child_nodes_size: "child \<in> set (iter_child_nodes n) \<Longrightarrow> size child < size n"
  by (cases n) (auto simp add: less_Suc_eq_le dest: size_in_list size_in_opt_list)

text \<open>
  \<open>Node.find_all(node_type)\<close>: every descendant of the class, in the order of a
  depth-first walk that visits a node before its children.
\<close>

function find_all :: "(node \<Rightarrow> bool) \<Rightarrow> node \<Rightarrow> node list" where
  "find_all node_type n =
     concat (map (\<lambda>child. (if node_type child then [child] else []) @ find_all node_type child)
                 (iter_child_nodes n))"
  by pat_completeness auto
termination
  by (relation "measure (\<lambda>(node_type, n). size n)") (auto simp add: iter_child_nodes_size)

declare find_all.simps [simp del]

fun is_Assign :: "node \<Rightarrow> bool" where
  "is_Assign (Assign _ _) = True"
| "is_Assign _ = False"

fun is_For :: "node \<Rightarrow> bool" where
  "is_For (For _ _ _ _ _ _) = True"
| "is_For _ = False"


section \<open>The template structure analyzer\<close>

definition is_var_access :: "node \<Rightarrow> string \<Rightarrow> bool" where
  "is_var_access n varname =
     (case n of Name name ctx \<Rightarrow> ctx = ''load'' \<and> name = varname | _ \<Rightarrow> False)"

definition is_attr_access :: "node \<Rightarrow> string \<Rightarrow> string \<Rightarrow> bool" where
  "is_attr_access n varname key =
     (case n of
        Getitem n1 arg \<Rightarrow>
          is_var_access n1 varname \<and> (case arg of Const v \<Rightarrow> v = JStr key | _ \<Rightarrow> False)
      | Getattr n1 attr \<Rightarrow> is_var_access n1 varname \<and> attr = key
      | _ \<Rightarrow> False)"

text \<open>
  The last line of \<open>_is_var_or_elems_access\<close>: \<open>if key\<close> is false for \<open>None\<close> and for
  the empty string.
\<close>

definition is_plain_access :: "node \<Rightarrow> string \<Rightarrow> string option \<Rightarrow> bool" where
  "is_plain_access n varname key =
     (case key of
        None \<Rightarrow> is_var_access n varname
      | Some k \<Rightarrow> if k \<noteq> [] then is_attr_access n varname k else is_var_access n varname)"

fun is_var_or_elems_access :: "node \<Rightarrow> string \<Rightarrow> string option \<Rightarrow> bool" where
  "is_var_or_elems_access (Filter None nm args) varname key = False"
| "is_var_or_elems_access (Filter (Some n) nm args) varname key = is_var_or_elems_access n varname key"
| "is_var_or_elems_access (Test n nm args) varname key = is_var_or_elems_access n varname key"
| "is_var_or_elems_access (Getitem n (Slice start stop step)) varname key =
     is_var_or_elems_access n varname key"
| "is_var_or_elems_access n varname key = is_plain_access n varname key"

text \<open>
  A generator that is run to its end yields a list of values and then either stops or
  raises: \<open>Gen ys None\<close> and \<open>Gen ys (Some e)\<close>. \<open>consumed\<close> is what a list
  comprehension over it gives, \<open>next_of\<close> what \<open>next\<close> gives on the fresh generator.
\<close>

datatype 'a gen = Gen "'a list" "error option"

fun consumed :: "'a gen \<Rightarrow> error + 'a list" where
  "consumed (Gen ys None) = Inr ys"
| "consumed (Gen ys (Some e)) = Inl e"

fun next_of :: "'a gen \<Rightarrow> error + 'a" where
  "next_of (Gen (y # ys) e) = Inr y"
| "next_of (Gen [] None) = Inl StopIteration"
| "next_of (Gen [] (Some e)) = Inl e"

text \<open>
  The \<open>for assign_ast in root.find_all(Assign)\<close> loop of \<open>_iter_nodes_assign_var_or_elems\<close>
  for one \<open>related_varname\<close>: what it yields, and whether the \<open>assert\<close> stopped it.
\<close>

fun scan_assigns :: "node list \<Rightarrow> string \<Rightarrow> (node \<times> string) gen" where
  "scan_assigns [] related_varname = Gen [] None"
| "scan_assigns (Assign lhs rhs # rest) related_varname =
     (if is_var_or_elems_access rhs related_varname None
      then (case lhs of
              Name name ctx \<Rightarrow>
                (case scan_assigns rest related_varname of
                   Gen ys e \<Rightarrow> Gen ((Assign lhs rhs, name) # ys) e)
            | _ \<Rightarrow> Gen [] (Some AssertionError))
      else scan_assigns rest related_varname)"
| "scan_assigns (_ # rest) related_varname = scan_assigns rest related_varname"

text \<open>
  The \<open>while related_varnames\<close> loop. \<open>related_varnames\<close> is the deque, \<open>yielded\<close> what
  the generator has yielded so far. The names the inner loop appends are the yielded names
  other than \<open>related_varname\<close>, in order. The loop need not end, so the function is
  partial: \<open>None\<close> is a run that never returns.
\<close>

partial_function (option) bfs :: "node \<Rightarrow> string list \<Rightarrow> (node \<times> string) list
    \<Rightarrow> (node \<times> string) gen option" where
  "bfs root related_varnames yielded =
     (case related_varnames of
        [] \<Rightarrow> Some (Gen yielded None)
      | related_varname # rest \<Rightarrow>
          (case scan_assigns (find_all is_Assign root) related_varname of
             Gen ys (Some e) \<Rightarrow> Some (Gen (yielded @ ys) (Some e))
           | Gen ys None \<Rightarrow>
               bfs root (rest @ filter (\<lambda>name. name \<noteq> related_varname) (map snd ys))
                 (yielded @ ys)))"

definition iter_nodes_assign_var_or_elems :: "node \<Rightarrow> string \<Rightarrow> (node \<times> string) gen option" where
  "iter_nodes_assign_var_or_elems root varname = bfs root [varname] [(root, varname)]"

text \<open>
  The loop over \<open>root.find_all(For)\<close> shared by \<open>_iter_nodes_assign_messages_item\<close>
  (\<open>key = None\<close>) and \<open>_iter_nodes_assign_content_item\<close> (\<open>key = "content"\<close>): a loop
  whose iterated expression is an access to one of the names is yielded with its target's
  name, after the \<open>assert\<close> that the target is a \<open>Name\<close>.
\<close>

fun scan_loops :: "node list \<Rightarrow> string list \<Rightarrow> string option \<Rightarrow> (node \<times> string) gen" where
  "scan_loops [] varnames key = Gen [] None"
| "scan_loops (For loop_target loop_iter body orelse test recursive # rest) varnames key =
     (if list_ex (\<lambda>varname. is_var_or_elems_access loop_iter varname key) varnames
      then (case loop_target of
              Name name ctx \<Rightarrow>
                (case scan_loops rest varnames key of
                   Gen ys e \<Rightarrow> Gen ((For loop_target loop_iter body orelse test recursive, name) # ys) e)
            | _ \<Rightarrow> Gen [] (Some AssertionError))
      else scan_loops rest varnames key)"
| "scan_loops (_ # rest) varnames key = scan_loops rest varnames key"

definition iter_nodes_assign_messages_item :: "node \<Rightarrow> (node \<times> string) gen option" where
  "iter_nodes_assign_messages_item root =
     (case iter_nodes_assign_var_or_elems root ''messages'' of
        None \<Rightarrow> None
      | Some g \<Rightarrow>
          (case consumed g of
             Inl e \<Rightarrow> Some (Gen [] (Some e))
           | Inr ys \<Rightarrow> Some (scan_loops (find_all is_For root) (map snd ys) None)))"

definition iter_nodes_assign_content_item :: "node \<Rightarrow> (node \<times> string) gen option" where
  "iter_nodes_assign_content_item root =
     (case iter_nodes_assign_messages_item root of
        None \<Rightarrow> None
      | Some g \<Rightarrow>
          (case consumed g of
             Inl e \<Rightarrow> Some (Gen [] (Some e))
           | Inr ys \<Rightarrow> Some (scan_loops (find_all is_For root) (map snd ys) (Some ''content''))))"

datatype content_format = FormatString | FormatOpenAI

text \<open>
  \<open>_detect_content_format\<close>. \<open>try_extract_ast\<close> is the template engine's parser behind
  \<open>_try_extract_ast\<close>, which returns \<open>None\<close> when compiling or parsing raises. The result
  is \<open>None\<close> when the analysis never returns; \<open>dflt\<close> is the keyword argument
  \<open>default\<close>.
\<close>

definition detect_content_format :: "(string \<Rightarrow> node option) \<Rightarrow> string \<Rightarrow> content_format
    \<Rightarrow> content_format option" where
  "detect_content_format try_extract_ast chat_template dflt =
     (case try_extract_ast chat_template of
        None \<Rightarrow> Some dflt
      | Some jinja_ast \<Rightarrow>
          (case iter_nodes_assign_content_item jinja_ast of
             None \<Rightarrow> None
           | Some g \<Rightarrow>
               Some (case next_of g of
                       Inr _ \<Rightarrow> FormatOpenAI
                     | Inl StopIteration \<Rightarrow> FormatString
                     | Inl _ \<Rightarrow> dflt)))"

section \<open>The analysis in the specification's words\<close>

text \<open>
  The analysis as the specification words it. An assignment whose right-hand side is an
  access to a name makes its left-hand name an alias of that name (\<open>alias_step\<close>); the
  aliases of a name are what chains of such assignments reach. A message variable is the
  target of a loop over an access to an alias of \<open>messages\<close>; a content loop is a loop over
  an access to the key \<open>content\<close> of a message variable.
\<close>

definition alias_step :: "node \<Rightarrow> (string \<times> string) set" where
  "alias_step root =
     {(v, n). \<exists>ctx rhs. Assign (Name n ctx) rhs \<in> set (find_all is_Assign root)
                \<and> is_var_or_elems_access rhs v None}"

definition aliases_of :: "node \<Rightarrow> string \<Rightarrow> string set" where
  "aliases_of root v = {n. (v, n) \<in> (alias_step root)\<^sup>*}"

text \<open>The target and the iterated expression of a \<open>For\<close> node, and its target's name.\<close>

fun loop_parts :: "node \<Rightarrow> (node \<times> node) option" where
  "loop_parts (For loop_target loop_iter body orelse test recursive) = Some (loop_target, loop_iter)"
| "loop_parts _ = None"

fun loop_name :: "node \<Rightarrow> string option" where
  "loop_name (For (Name name ctx) loop_iter body orelse test recursive) = Some name"
| "loop_name _ = None"

definition loop_over :: "string set \<Rightarrow> string option \<Rightarrow> node \<Rightarrow> bool" where
  "loop_over names key l =
     (case loop_parts l of
        None \<Rightarrow> False
      | Some (loop_target, loop_iter) \<Rightarrow> \<exists>v \<in> names. is_var_or_elems_access loop_iter v key)"

definition message_vars :: "node \<Rightarrow> string set" where
  "message_vars root =
     {n. \<exists>l \<in> set (find_all is_For root).
           loop_over (aliases_of root ''messages'') None l \<and> loop_name l = Some n}"

definition has_content_loop :: "node \<Rightarrow> bool" where
  "has_content_loop root =
     (\<exists>l \<in> set (find_all is_For root). loop_over (message_vars root) (Some ''content'') l)"

text \<open>
  The third stage as the specification words it: the aliases of the message variables
  restricted to the key \<open>content\<close> are resolved, and a loop over an access to such a
  content alias counts as well. A content alias is a name assigned from an access to the
  key \<open>content\<close> of a message variable, or an alias of such a name.
\<close>

definition content_aliases :: "node \<Rightarrow> string set" where
  "content_aliases root =
     {n. \<exists>c ctx rhs. Assign (Name c ctx) rhs \<in> set (find_all is_Assign root)
            \<and> (\<exists>v \<in> message_vars root. is_var_or_elems_access rhs v (Some ''content''))
            \<and> n \<in> aliases_of root c}"

definition spec_content_loop :: "node \<Rightarrow> bool" where
  "spec_content_loop root =
     (has_content_loop root
      \<or> (\<exists>l \<in> set (find_all is_For root). loop_over (content_aliases root) None l))"

text \<open>
  The alias pass ends when no alias of \<open>messages\<close> is assigned, through other names,
  from itself; a name assigned from itself directly is allowed. \<open>alias_edges\<close> are the
  alias steps that matter for this: from an alias of \<open>messages\<close> to another name.
\<close>

definition alias_edges :: "node \<Rightarrow> (string \<times> string) set" where
  "alias_edges root =
     {(v, n). (v, n) \<in> alias_step root \<and> v \<noteq> n \<and> v \<in> aliases_of root ''messages''}"

text \<open>
  An \<open>assert\<close> of the analysis fails, and the analysis raises, when something it matches
  does not bind a plain name: an assignment from an alias of \<open>messages\<close>, a loop over
  an alias of \<open>messages\<close>, or the first content loop in the order of the tree walk.
\<close>

fun is_Name :: "node \<Rightarrow> bool" where
  "is_Name (Name _ _) = True"
| "is_Name _ = False"

definition assigns_plain :: "node \<Rightarrow> bool" where
  "assigns_plain root =
     (\<forall>lhs rhs. Assign lhs rhs \<in> set (find_all is_Assign root)
         \<and> (\<exists>v \<in> aliases_of root ''messages''. is_var_or_elems_access rhs v None)
         \<longrightarrow> is_Name lhs)"

definition message_loops_plain :: "node \<Rightarrow> bool" where
  "message_loops_plain root =
     (\<forall>l \<in> set (find_all is_For root).
         loop_over (aliases_of root ''messages'') None l \<longrightarrow> loop_name l \<noteq> None)"

definition first_content_loop :: "node \<Rightarrow> node option" where
  "first_content_loop root =
     find (loop_over (message_vars root) (Some ''content'')) (find_all is_For root)"

definition analysis_raises :: "node \<Rightarrow> bool" where
  "analysis_raises root =
     (\<not> assigns_plain root \<or> \<not> message_loops_plain root
      \<or> (\<exists>l. first_content_loop root = Some l \<and> loop_name l = None))"

text \<open>The name a right-hand side is an access to, if any.\<close>

fun accessed_var :: "node \<Rightarrow> string option" where
  "accessed_var (Filter None nm args) = None"
| "accessed_var (Filter (Some n) nm args) = accessed_var n"
| "accessed_var (Test n nm args) = accessed_var n"
| "accessed_var (Getitem n (Slice start stop step)) = accessed_var n"
| "accessed_var (Name name ctx) = (if ctx = ''load'' then Some name else None)"
| "accessed_var n = None"

section \<open>Specification-side definitions and example inputs\<close>

text \<open>
  The media part types, as the specification lists them (the valid part types without
  \<open>text\<close> and \<open>refusal\<close>).
\<close>

definition media_types :: "string list" where
  "media_types = [''image_url'', ''image_embeds'', ''audio_url'', ''input_audio'', ''video_url'']"

text \<open>
  The post-process pass as the specification words it. \<open>assistant_calls\<close> are the tool
  calls of the assistant messages that carry a list of them, in the order of the
  conversation, \<open>call_refs\<close> the inner dicts they point to. \<open>decoded_store\<close> is the
  store in which each of these dicts has its arguments replaced by the value
  \<open>json.loads\<close> returns for them, and nothing else is changed.
\<close>

definition assistant_calls :: "conversation_message list \<Rightarrow> tool_call list" where
  "assistant_calls messages =
     concat (map (\<lambda>message.
        case (if msg_role message = ''assistant'' then msg_tool_calls message else None) of
          None \<Rightarrow> []
        | Some calls \<Rightarrow> calls) messages)"

definition call_refs :: "conversation_message list \<Rightarrow> addr list" where
  "call_refs messages = map call_function (assistant_calls messages)"

definition decoded :: "(string \<Rightarrow> error + json) \<Rightarrow> function_dict \<Rightarrow> function_dict" where
  "decoded loads f = f\<lparr>arguments := projr (py_json_loads loads (arguments f))\<rparr>"

definition decoded_store :: "(string \<Rightarrow> error + json) \<Rightarrow> addr list \<Rightarrow> store \<Rightarrow> store" where
  "decoded_store loads refs st = (\<lambda>a. if a \<in> set refs then decoded loads (st a) else st a)"

text \<open>
  Inputs for the concrete instances below: a connector that returns the locator it is
  given as the fetched value, two content parts, a parser on a fresh tracker,
  \<open>json.loads\<close> restricted to the one text the specification's example decodes, an
  assistant message whose tool calls point to given inner dicts, and a store in which
  every inner dict holds that text as its arguments.
\<close>

definition echo_connector :: "json connector" where
  "echo_connector =
     \<lparr>fetch_image = Inr, fetch_image_embedding = Inr, fetch_audio = Inr, fetch_video = Inr,
      str_of = (\<lambda>v. case v of JStr s \<Rightarrow> s | _ \<Rightarrow> [])\<rparr>"

definition image_url_part :: "string \<Rightarrow> json" where
  "image_url_part url =
     JDict [(''type'', JStr ''image_url''), (''image_url'', JDict [(''url'', JStr url)])]"

definition text_part :: "string \<Rightarrow> json" where
  "text_part s = JDict [(''type'', JStr ''text''), (''text'', JStr s)]"

definition example_parser :: "model_config \<Rightarrow> json mm_parser" where
  "example_parser cfg = create_parser (new_tracker cfg)"

definition wire_a1 :: string where
  \<open>wire_a1 = ''{"a": 1}''\<close>

definition example_loads :: "string \<Rightarrow> error + json" where
  "example_loads s = (if s = wire_a1 then Inr (JDict [(''a'', JInt 1)]) else Inl JSONDecodeError)"

definition assistant_message :: "addr list \<Rightarrow> conversation_message" where
  "assistant_message refs =
     \<lparr>msg_role = ''assistant'', msg_content = JNull, msg_name = None, msg_tool_call_id = None,
      msg_tool_calls = Some (map (\<lambda>a. \<lparr>call_function = a, call_rest = JNull\<rparr>) refs)\<rparr>"

definition wire_store :: store where
  "wire_store = (\<lambda>a. \<lparr>arguments = JStr wire_a1, function_rest = JNull\<rparr>)"

text \<open>
  One step of \<open>find_all\<close> at a child: the child itself when it is of the class,
  then its descendants.
\<close>

definition visit :: "(node \<Rightarrow> bool) \<Rightarrow> node \<Rightarrow> node list" where
  "visit node_type child = (if node_type child then [child] else []) @ find_all node_type child"

text \<open>
  The tree of the template
  \<^verbatim>\<open>{% set a = messages %}{% set messages = a %}\<close>.
\<close>

definition mutual_template :: node where
  "mutual_template =
     Other [Assign (Name ''a'' ''store'') (Name ''messages'' ''load''),
            Assign (Name ''messages'' ''store'') (Name ''a'' ''load'')]"

text \<open>
  Parsers for the concrete instances: one that returns a given tree, one that fails. And
  four trees: of a template that assigns \<open>messages\<close> to \<open>msgs\<close>, loops over \<open>msgs\<close>
  and, inside, over \<open>m['content']\<close>; of one that loops over \<open>messages\<close> and only
  prints \<open>m.content\<close>; of
  \<^verbatim>\<open>{% for m in messages %}{% set c = m['content'] %}{% for p in c %}{% endfor %}{% endfor %}\<close>,
  which loops over a name assigned from \<open>m['content']\<close>; and of
  \<^verbatim>\<open>{% for a, b in messages %}{% endfor %}\<close>, whose loop target is a tuple.
\<close>

definition parses_to :: "node \<Rightarrow> string \<Rightarrow> node option" where
  "parses_to root chat_template = Some root"

definition parse_fails :: "string \<Rightarrow> node option" where
  "parse_fails chat_template = None"

definition structured_template :: node where
  "structured_template =
     Other [Assign (Name ''msgs'' ''store'') (Name ''messages'' ''load''),
            For (Name ''m'' ''store'') (Name ''msgs'' ''load'')
              [For (Name ''part'' ''store'') (Getitem (Name ''m'' ''load'') (Const (JStr ''content'')))
                 [] [] None False]
              [] None False]"

definition flat_template :: node where
  "flat_template =
     Other [For (Name ''m'' ''store'') (Name ''messages'' ''load'')
              [Other [Getattr (Name ''m'' ''load'') ''content'']]
              [] None False]"

definition content_alias_template :: node where
  "content_alias_template =
     Other [For (Name ''m'' ''store'') (Name ''messages'' ''load'')
              [Assign (Name ''c'' ''store'') (Getitem (Name ''m'' ''load'') (Const (JStr ''content''))),
               For (Name ''p'' ''store'') (Name ''c'' ''load'') [] [] None False]
              [] None False]"

definition tuple_template :: node where
  "tuple_template =
     Other [For (Other [Name ''a'' ''store'', Name ''b'' ''store'']) (Name ''messages'' ''load'')
              [] [] None False]"

section \<open>Proofs: the item tracker\<close>

lemma add_config: "config (fst (add tr m x)) = config tr"
  by (simp add: add_def Let_def split: prod.splits)

lemma add_allowed: "allowed_items (fst (add tr m x)) = allowed_items tr"
  by (simp add: allowed_items_def add_config)

lemma add_recorded:
  "recorded (fst (add tr m x)) m' =
     (if m' = m \<and> int (length (recorded tr m)) + 1 \<le> dict_get_default (allowed_items tr) m 1
      then recorded tr m @ [x] else recorded tr m')"
  by (auto simp add: add_def Let_def recorded_def dict_get_default_def defaultdict_get_def update_conv' Suc_le_eq
      split: prod.splits option.splits)

lemma add_result:
  "snd (add tr m x) =
     (if int (length (recorded tr m)) + 1 \<le> dict_get_default (allowed_items tr) m 1
      then placeholder_str (config tr) m (int (length (recorded tr m)) + 1)
      else Inl (LimitExceeded (dict_get_default (allowed_items tr) m 1) m))"
  by (auto simp add: add_def Let_def recorded_def dict_get_default_def defaultdict_get_def update_conv' Suc_le_eq
      split: prod.splits option.splits)

lemma placeholder_str_not_limit: "placeholder_str cfg m c \<noteq> Inl (LimitExceeded a b)"
  by (simp add: placeholder_str_def Let_def)


lemma add_all_Cons:
  "add_all tr m (x # xs) =
     (fst (add_all (fst (add tr m x)) m xs), snd (add tr m x) # snd (add_all (fst (add tr m x)) m xs))"
  by (simp add: split_beta)

lemma add_all_result:
  "snd (add_all tr m xs) =
     map (\<lambda>k. if int (length (recorded tr m)) + int k < dict_get_default (allowed_items tr) m 1
              then placeholder_str (config tr) m (int (length (recorded tr m)) + int k + 1)
              else Inl (LimitExceeded (dict_get_default (allowed_items tr) m 1) m))
         [0..<length xs]"
proof (induction xs arbitrary: tr)
  case Nil
  then show ?case by simp
next
  case (Cons x xs)
  let ?L = "dict_get_default (allowed_items tr) m 1"
  let ?n = "int (length (recorded tr m))"
  let ?tr1 = "fst (add tr m x)"
  have upt: "[0..<length (x # xs)] = 0 # map Suc [0..<length xs]"
    by (simp add: upt_conv_Cons map_Suc_upt del: upt_Suc)
  show ?case
  proof (cases "?n + 1 \<le> ?L")
    case True
    then have len: "int (length (recorded ?tr1 m)) = ?n + 1"
      by (simp add: add_recorded)
    have ac: "\<And>k. ?n + 1 + int k = ?n + (int k + 1)" "\<And>k. ?n + 1 + int k + 1 = ?n + (int k + 1) + 1"
             "\<And>k. 1 + int k = int k + 1" "\<And>k. ?n + (1 + int k) = ?n + (int k + 1)"
      by simp_all
    show ?thesis
      unfolding add_all_Cons upt
      using True
      by (simp add: Cons.IH add_result add_allowed add_config len ac del: upt_Suc)
  next
    case False
    then have len: "recorded ?tr1 m = recorded tr m"
      by (simp add: add_recorded)
    show ?thesis
      unfolding add_all_Cons upt
      using False
      by (simp add: Cons.IH add_result add_allowed add_config len del: upt_Suc)
  qed
qed

lemma add_all_recorded:
  "recorded (fst (add_all tr m xs)) m =
     recorded tr m @ take (nat (dict_get_default (allowed_items tr) m 1 - int (length (recorded tr m)))) xs"
proof (induction xs arbitrary: tr)
  case Nil
  then show ?case by simp
next
  case (Cons x xs)
  let ?L = "dict_get_default (allowed_items tr) m 1"
  let ?n = "int (length (recorded tr m))"
  show ?case
  proof (cases "?n + 1 \<le> ?L")
    case True
    then obtain j where j: "nat (?L - ?n) = Suc j" "nat (?L - (1 + ?n)) = j"
    proof -
      from True have "0 \<le> ?L - (1 + ?n)" by simp
      then have "nat (?L - ?n) = Suc (nat (?L - (1 + ?n)))" by linarith
      then show ?thesis using that by blast
    qed
    show ?thesis
      unfolding add_all_Cons using True j
      by (simp add: Cons.IH add_recorded add_allowed)
  next
    case False
    then have z: "nat (?L - ?n) = 0" by simp
    show ?thesis
      unfolding add_all_Cons using False z
      by (simp add: Cons.IH add_recorded add_allowed)
  qed
qed


lemma mm_inputs_of_mixed:
  "map_of items ''image'' = Some xs \<Longrightarrow> map_of items ''image_embeds'' = Some es \<Longrightarrow>
   mm_inputs_of items = Inl MixedImageAndEmbeds"
  by (simp add: mm_inputs_of_def)

lemma mm_inputs_of_multiple:
  "map_of items ''image'' = None \<Longrightarrow> map_of items ''image_embeds'' = Some es \<Longrightarrow> length es > 1 \<Longrightarrow>
   mm_inputs_of items = Inl MultipleImageEmbeds"
  by (simp add: mm_inputs_of_def)

lemma mm_inputs_of_plain:
  assumes "map_of items ''image_embeds'' = None"
  shows "\<exists>m. mm_inputs_of items = Inr m \<and>
           (\<forall>k. map_of m k = (if k \<in> {''image'', ''audio'', ''video''}
                              then map_option Many (map_of items k) else None))"
  using assms
  by (auto simp add: mm_inputs_of_def Let_def update_conv' split: option.splits)

lemma mm_inputs_of_embeds:
  assumes "map_of items ''image_embeds'' = Some [e]" "map_of items ''image'' = None"
  shows "\<exists>m. mm_inputs_of items = Inr m \<and>
           (\<forall>k. map_of m k = (if k = ''image'' then Some (Single e)
                              else if k \<in> {''audio'', ''video''}
                              then map_option Many (map_of items k) else None))"
  using assms
  by (auto simp add: mm_inputs_of_def Let_def update_conv' split: option.splits)

lemma gather_resolved: "(\<forall>w \<in> set ws. \<not> isl w) \<Longrightarrow> gather ws = Inr (map projr ws)"
  by (induction ws rule: gather.induct) auto

lemma gather_failed: "\<exists>w \<in> set ws. isl w \<Longrightarrow> \<exists>e. gather ws = Inl e \<and> Inl e \<in> set ws"
  by (induction ws rule: gather.induct) (auto split: sum.splits)

lemma gather_items_resolved: "all_resolved d \<Longrightarrow> gather_items d = Inr (resolved d)"
  by (induction d rule: gather_items.induct) (auto simp add: all_resolved_def resolved_def gather_resolved)

lemma gather_items_failed:
  "\<not> all_resolved d \<Longrightarrow> \<exists>e. gather_items d = Inl e \<and> (\<exists>(k, ws) \<in> set d. Inl e \<in> set ws)"
proof (induction d rule: gather_items.induct)
  case 1
  then show ?case by (simp add: all_resolved_def)
next
  case (2 modality items rest)
  show ?case
  proof (cases "\<forall>w \<in> set items. \<not> isl w")
    case True
    then have g: "gather items = Inr (map projr items)" by (rule gather_resolved)
    from True "2.prems" have "\<not> all_resolved rest" by (auto simp add: all_resolved_def)
    with "2.IH" g obtain e where "gather_items rest = Inl e" "\<exists>(k, ws) \<in> set rest. Inl e \<in> set ws"
      by blast
    with g show ?thesis by auto
  next
    case False
    then obtain e where "gather items = Inl e" "Inl e \<in> set items"
      using gather_failed by blast
    then show ?thesis by auto
  qed
qed

lemma recorded_nonempty: "recorded tr k \<noteq> [] \<Longrightarrow> \<exists>xs. map_of (items_by_modality tr) k = Some xs \<and> xs = recorded tr k"
  by (auto simp add: recorded_def dict_get_default_def split: option.splits)

lemma all_mm_data_mixed:
  assumes "recorded tr ''image'' \<noteq> [] \<and> recorded tr ''image_embeds'' \<noteq> []
           \<or> 1 < length (recorded tr ''image_embeds'')"
  shows "\<exists>e. all_mm_data tr = Inl e \<and> is_MixedModality e"
proof -
  from assms have ne: "recorded tr ''image_embeds'' \<noteq> []" by auto
  then obtain es where es: "map_of (items_by_modality tr) ''image_embeds'' = Some es"
    "es = recorded tr ''image_embeds''"
    using recorded_nonempty by blast
  then have nonempty: "items_by_modality tr \<noteq> []" by auto
  show ?thesis
  proof (cases "map_of (items_by_modality tr) ''image''")
    case None
    then have "recorded tr ''image'' = []" by (simp add: recorded_def dict_get_default_def)
    with assms es have "1 < length es" by auto
    with None es have "mm_inputs_of (items_by_modality tr) = Inl MultipleImageEmbeds"
      by (simp add: mm_inputs_of_multiple)
    with nonempty show ?thesis by (simp add: all_mm_data_def)
  next
    case (Some xs)
    with es have "mm_inputs_of (items_by_modality tr) = Inl MixedImageAndEmbeds"
      by (simp add: mm_inputs_of_mixed)
    with nonempty show ?thesis by (simp add: all_mm_data_def)
  qed
qed

lemma no_empty_list_recorded:
  "no_empty_list tr \<Longrightarrow> map_of (items_by_modality tr) k = Some xs \<Longrightarrow> xs \<noteq> [] \<and> recorded tr k = xs"
  by (auto simp add: no_empty_list_def recorded_def dict_get_default_def dest: map_of_SomeD)

lemma all_mm_data_ok:
  assumes ne: "items_by_modality tr \<noteq> []" and wf: "no_empty_list tr"
    and nm: "\<not> (recorded tr ''image'' \<noteq> [] \<and> recorded tr ''image_embeds'' \<noteq> []
           \<or> 1 < length (recorded tr ''image_embeds''))"
  shows "\<exists>m. all_mm_data tr = Inr (Some m) \<and> (\<forall>k. map_of m k = finalized_value tr k)"
proof (cases "map_of (items_by_modality tr) ''image_embeds''")
  case None
  then have r: "recorded tr ''image_embeds'' = []" by (simp add: recorded_def dict_get_default_def)
  from mm_inputs_of_plain [OF None] obtain m where
    m: "mm_inputs_of (items_by_modality tr) = Inr m"
       "\<forall>k. map_of m k = (if k \<in> {''image'', ''audio'', ''video''}
                              then map_option Many (map_of (items_by_modality tr) k) else None)"
    by blast
  then have "\<forall>k. map_of m k = finalized_value tr k"
    by (auto simp add: finalized_value_def r)
  with m ne show ?thesis by (simp add: all_mm_data_def)
next
  case (Some es)
  with wf have es: "es \<noteq> []" "recorded tr ''image_embeds'' = es"
    using no_empty_list_recorded by blast+
  with nm have "length es \<le> 1" by auto
  with es obtain e where e: "es = [e]" by (cases es) auto
  have img: "map_of (items_by_modality tr) ''image'' = None"
  proof (cases "map_of (items_by_modality tr) ''image''")
    case None then show ?thesis .
  next
    case (Some xs)
    with wf have "recorded tr ''image'' \<noteq> []" using no_empty_list_recorded by fastforce
    with nm es show ?thesis by auto
  qed
  from mm_inputs_of_embeds [OF Some [unfolded e] img] obtain m where
    m: "mm_inputs_of (items_by_modality tr) = Inr m"
       "\<forall>k. map_of m k = (if k = ''image'' then Some (Single e)
                              else if k \<in> {''audio'', ''video''}
                              then map_option Many (map_of (items_by_modality tr) k) else None)"
    by blast
  then have "\<forall>k. map_of m k = finalized_value tr k"
    by (auto simp add: finalized_value_def es e)
  with m ne show ?thesis by (simp add: all_mm_data_def)
qed

lemma async_all_mm_data_resolved:
  "all_resolved (items_by_modality atr) \<Longrightarrow>
   async_all_mm_data atr =
     all_mm_data \<lparr>config = config atr, items_by_modality = resolved (items_by_modality atr)\<rparr>"
  by (simp add: async_all_mm_data_def all_mm_data_def gather_items_resolved resolved_def)

lemma async_all_mm_data_failed:
  assumes "\<not> all_resolved (items_by_modality atr)"
  shows "\<exists>e. async_all_mm_data atr = Inl e \<and> (\<exists>(k, ws) \<in> set (items_by_modality atr). Inl e \<in> set ws)"
proof -
  from assms have ne: "items_by_modality atr \<noteq> []" by (auto simp add: all_resolved_def)
  from gather_items_failed [OF assms] obtain e where
    e: "gather_items (items_by_modality atr) = Inl e"
       "\<exists>(k, ws) \<in> set (items_by_modality atr). Inl e \<in> set ws"
    by blast
  from e(1) ne have "async_all_mm_data atr = Inl e" by (simp add: async_all_mm_data_def)
  with e(2) show ?thesis by blast
qed

lemma set_update_subset: "set (AList.update k v d) \<subseteq> insert (k, v) (set d)"
  by (induction d) auto

lemma no_empty_list_new: "no_empty_list (new_tracker cfg)"
  by (simp add: no_empty_list_def new_tracker_def)

lemma add_keeps_no_empty_list:
  assumes ne: "no_empty_list tr" and acc: "\<not> rejected (snd (add tr m x))"
  shows "no_empty_list (fst (add tr m x))"
proof -
  let ?d = "items_by_modality tr"
  obtain d1 xs where g: "defaultdict_get ?d m = (d1, xs)" by (cases "defaultdict_get ?d m")
  from acc g have ok: "\<not> int (length xs) + 1 > dict_get_default (allowed_items tr) m 1"
    by (auto simp add: add_def Let_def rejected_def)
  with g have "items_by_modality (fst (add tr m x)) = AList.update m (xs @ [x]) d1"
    by (simp add: add_def Let_def)
  also have "\<dots> = AList.update m (xs @ [x]) ?d"
    using g by (auto simp add: defaultdict_get_def split: option.splits)
  finally have items: "items_by_modality (fst (add tr m x)) = AList.update m (xs @ [x]) ?d" .
  from ne set_update_subset [of m "xs @ [x]" ?d] show ?thesis
    unfolding no_empty_list_def items by auto
qed

subsection \<open>Claims about the item tracker\<close>

text \<open>
  Claim C2, as amended. On a tracker that has no item recorded for the modality, calling
  \<open>add\<close> once per item of \<open>xs\<close>: call number \<open>k + 1\<close> returns what the placeholder
  catalog gives for the occurrence count \<open>k + 1\<close> as long as \<open>k\<close> is below the
  configured limit (default 1), and fails with \<open>LimitExceeded\<close> from call number
  limit + 1 on; exactly the first limit-many items are appended; and the catalog itself
  never fails with \<open>LimitExceeded\<close>, so that failure never comes earlier. What the
  catalog gives may be its own failure for an unregistered model family.
\<close>

theorem add_limit:
  assumes "recorded tr m = []"
  shows "snd (add_all tr m xs) =
           map (\<lambda>k. if int k < allowed_count tr m
                    then placeholder_str (config tr) m (int k + 1)
                    else Inl (LimitExceeded (allowed_count tr m) m))
               [0..<length xs]
         \<and> recorded (fst (add_all tr m xs)) m = take (nat (allowed_count tr m)) xs
         \<and> (\<forall>c a b. placeholder_str (config tr) m c \<noteq> Inl (LimitExceeded a b))"
  using assms
  by (simp add: add_all_result add_all_recorded allowed_count_def placeholder_str_not_limit)

text \<open>
  Limit \<open>{image: 2}\<close> on an \<open>mllama\<close> model: two calls return the placeholder, the
  third fails, and the first two items are the ones recorded.
\<close>

theorem add_limit_witness:
  "recorded (new_tracker (mllama_config [(''image'', 2)]) :: nat tracker) ''image'' = []
   \<and> snd (add_all (new_tracker (mllama_config [(''image'', 2)])) ''image'' [10, 20, 30 :: nat]) =
       [Inr (Some ''<|image|>''), Inr (Some ''<|image|>''), Inl (LimitExceeded 2 ''image'')]
   \<and> recorded (fst (add_all (new_tracker (mllama_config [(''image'', 2)])) ''image'' [10, 20, 30 :: nat])) ''image''
       = [10, 20]"
proof -
  let ?tr = "new_tracker (mllama_config [(''image'', 2)]) :: nat tracker"
  have h: "recorded ?tr ''image'' = []"
    by (simp add: recorded_def new_tracker_def dict_get_default_def)
  have L: "allowed_count ?tr ''image'' = 2"
    by (simp add: allowed_count_def allowed_items_def new_tracker_def mllama_config_def dict_get_default_def)
  have p: "\<And>c. placeholder_str (config ?tr) ''image'' c = Inr (Some ''<|image|>'')"
    by (simp add: placeholder_str_def new_tracker_def mllama_config_def startswith_def)
  have u: "[0..<length [10, 20, 30 :: nat]] = [0, 1, 2]"
    by (simp add: upt_rec)
  show ?thesis
    using add_limit [OF h, of "[10, 20, 30]"] h
    unfolding L p u by simp
qed

text \<open>
  Claim C2 as stated fails: with the default limit 1 and a model family the catalog does
  not know, the first call does not succeed; it raises the catalog's \<open>TypeError\<close>.
\<close>

theorem add_unregistered_counterexample:
  "allowed_count (new_tracker gpt2_config :: nat tracker) ''image'' = 1
   \<and> recorded (new_tracker gpt2_config :: nat tracker) ''image'' = []
   \<and> snd (add (new_tracker gpt2_config) ''image'' (10 :: nat)) = Inl (UnknownModelType ''image'' ''gpt2'')"
  by (simp add: allowed_count_def allowed_items_def new_tracker_def gpt2_config_def
      dict_get_default_def recorded_def add_def defaultdict_get_def placeholder_str_def startswith_def)

text \<open>
  Claim C10 fails on the code. With limit \<open>{image_embeds: 0}\<close> the first \<open>add\<close> is
  rejected with \<open>LimitExceeded\<close>, but reading the \<open>defaultdict\<close> has already stored the
  key \<open>image_embeds\<close> with an empty list: the tracker is no longer the one before the
  call, and \<open>all_mm_data\<close>, which returned \<open>None\<close> before, now raises \<open>IndexError\<close> on
  \<open>image_embeds_lst[0]\<close>.
\<close>

theorem add_failure_registers_modality:
  "items_by_modality (new_tracker (mllama_config [(''image_embeds'', 0)]) :: nat tracker) = []
   \<and> snd (add (new_tracker (mllama_config [(''image_embeds'', 0)])) ''image_embeds'' (10 :: nat))
       = Inl (LimitExceeded 0 ''image_embeds'')
   \<and> items_by_modality (fst (add (new_tracker (mllama_config [(''image_embeds'', 0)])) ''image_embeds'' (10 :: nat)))
       = [(''image_embeds'', [])]
   \<and> all_mm_data (new_tracker (mllama_config [(''image_embeds'', 0)]) :: nat tracker) = Inr None
   \<and> all_mm_data (fst (add (new_tracker (mllama_config [(''image_embeds'', 0)])) ''image_embeds'' (10 :: nat)))
       = Inl IndexError"
  by (simp add: allowed_items_def new_tracker_def mllama_config_def
      dict_get_default_def add_def defaultdict_get_def all_mm_data_def mm_inputs_of_def)

text \<open>
  Claim C3, as amended. \<open>all_mm_data\<close> fails with a MixedModality error whenever an
  image item and an image-embeds item are both recorded, and whenever more than one
  image-embeds item is recorded. Otherwise it returns \<open>None\<close> when the tracker has no
  modality key at all, and, on a tracker whose every key holds at least one item, a
  mapping that carries the image, audio and video lists as recorded and the single
  image-embeds item itself under the key \<open>image\<close> (\<open>finalized_value\<close>). Every key holds
  at least one item as long as no \<open>add\<close> was rejected for its limit: it is so on a new
  tracker, and every \<open>add\<close> that is not rejected keeps it so. The concurrent variant
  returns what the sync variant returns on the resolved items when every pending item
  resolves, and fails with the error of a failed pending item otherwise.
\<close>

theorem all_mm_data_finalize:
  fixes tr pre :: "'a tracker" and atr :: "'a awaitable tracker"
  shows
  "(recorded tr ''image'' \<noteq> [] \<and> recorded tr ''image_embeds'' \<noteq> []
      \<or> 1 < length (recorded tr ''image_embeds'')
     \<longrightarrow> (\<exists>e. all_mm_data tr = Inl e \<and> is_MixedModality e))
   \<and> (items_by_modality tr = [] \<longrightarrow> all_mm_data tr = Inr None)
   \<and> (items_by_modality tr \<noteq> [] \<and> no_empty_list tr
      \<and> \<not> (recorded tr ''image'' \<noteq> [] \<and> recorded tr ''image_embeds'' \<noteq> []
            \<or> 1 < length (recorded tr ''image_embeds''))
     \<longrightarrow> (\<exists>m. all_mm_data tr = Inr (Some m) \<and> (\<forall>k. map_of m k = finalized_value tr k)))
   \<and> no_empty_list (new_tracker cfg :: 'a tracker)
   \<and> (no_empty_list pre \<and> \<not> rejected (snd (add pre modality item))
     \<longrightarrow> no_empty_list (fst (add pre modality item)))
   \<and> (all_resolved (items_by_modality atr)
     \<longrightarrow> async_all_mm_data atr =
           all_mm_data \<lparr>config = config atr, items_by_modality = resolved (items_by_modality atr)\<rparr>)
   \<and> (\<not> all_resolved (items_by_modality atr)
     \<longrightarrow> (\<exists>e. async_all_mm_data atr = Inl e
              \<and> (\<exists>(k, ws) \<in> set (items_by_modality atr). Inl e \<in> set ws)))"
  using all_mm_data_mixed [of tr] all_mm_data_ok [of tr]
    async_all_mm_data_resolved [of atr] async_all_mm_data_failed [of atr]
    no_empty_list_new [of cfg] add_keeps_no_empty_list [of pre modality item]
  by (simp add: all_mm_data_def)

text \<open>
  Trackers built by \<open>add\<close> on a \<open>minicpmo\<close> model, no call rejected: one with an image
  and an embedding, one with two images and an audio (limit \<open>{image: 2}\<close>), and a
  concurrent tracker whose two pending images resolve.
\<close>

theorem all_mm_data_finalize_witness:
  "no_empty_list (new_tracker (minicpmo_config []) :: nat tracker)
   \<and> \<not> rejected (snd (add (new_tracker (minicpmo_config [])) ''image'' (10 :: nat)))
   \<and> no_empty_list (fst (add (new_tracker (minicpmo_config [])) ''image'' (10 :: nat)))
   \<and> (\<exists>e. all_mm_data
             (fst (add (fst (add (new_tracker (minicpmo_config [])) ''image'' (10 :: nat)))
                    ''image_embeds'' 70)) = Inl e
        \<and> is_MixedModality e)
   \<and> (\<exists>m. all_mm_data
             (fst (add_all (fst (add_all (new_tracker (minicpmo_config [(''image'', 2)]))
                                   ''image'' [10 :: nat, 20]))
                      ''audio'' [30])) = Inr (Some m)
        \<and> map_of m ''image'' = Some (Many [10, 20]) \<and> map_of m ''audio'' = Some (Many [30])
        \<and> map_of m ''video'' = None)
   \<and> async_all_mm_data
        (fst (add_all (new_tracker (minicpmo_config [(''image'', 2)])) ''image''
                [Inr (10 :: nat), Inr 20]))
       = Inr (Some [(''image'', Many [10, 20])])"
proof -
  let ?t0 = "new_tracker (minicpmo_config []) :: nat tracker"
  define a where "a = fst (add (fst (add ?t0 ''image'' 10)) ''image_embeds'' 70)"
  define b where "b = fst (add_all (fst (add_all (new_tracker (minicpmo_config [(''image'', 2)]))
                                 ''image'' [10 :: nat, 20]))
                    ''audio'' [30])"
  define c :: "nat awaitable tracker"
    where "c = fst (add_all (new_tracker (minicpmo_config [(''image'', 2)])) ''image''
                   [Inr (10 :: nat), Inr 20])"
  note ev = add_def new_tracker_def minicpmo_config_def allowed_items_def dict_get_default_def
    defaultdict_get_def placeholder_str_def startswith_def
  have ta: "items_by_modality a = [(''image'', [10]), (''image_embeds'', [70])]"
    unfolding a_def by (simp add: ev)
  have tb: "items_by_modality b = [(''image'', [10, 20]), (''audio'', [30])]"
    unfolding b_def by (simp add: ev)
  have tc: "items_by_modality c = [(''image'', [Inr 10, Inr 20])]"
    unfolding c_def by (simp add: ev)
  have acc: "\<not> rejected (snd (add ?t0 ''image'' 10))"
    by (simp add: ev rejected_def)
  note fa = all_mm_data_finalize [where tr = a and cfg = "minicpmo_config []" and pre = ?t0
      and modality = "''image''" and item = 10 and atr = c]
  note fb = all_mm_data_finalize [where tr = b and cfg = "minicpmo_config []" and pre = ?t0
      and modality = "''image''" and item = 10 and atr = c]
  have n0: "no_empty_list ?t0"
    using fa by blast
  have n1: "no_empty_list (fst (add ?t0 ''image'' 10))"
    using fa n0 acc by blast
  have ra: "\<exists>e. all_mm_data a = Inl e \<and> is_MixedModality e"
    using fa by (simp add: recorded_def dict_get_default_def ta)
  have "\<exists>m. all_mm_data b = Inr (Some m) \<and> (\<forall>k. map_of m k = finalized_value b k)"
    using fb by (simp add: recorded_def dict_get_default_def no_empty_list_def tb)
  then obtain m where m: "all_mm_data b = Inr (Some m)" "\<And>k. map_of m k = finalized_value b k"
    by blast
  have "map_of m ''image'' = Some (Many [10, 20])" "map_of m ''audio'' = Some (Many [30])"
    "map_of m ''video'' = None"
    unfolding m(2) by (simp_all add: finalized_value_def recorded_def dict_get_default_def tb)
  with m(1) have rb: "\<exists>m. all_mm_data b = Inr (Some m)
        \<and> map_of m ''image'' = Some (Many [10, 20]) \<and> map_of m ''audio'' = Some (Many [30])
        \<and> map_of m ''video'' = None"
    by blast
  have "async_all_mm_data c =
          all_mm_data \<lparr>config = config c, items_by_modality = resolved (items_by_modality c)\<rparr>"
    using fa by (simp add: all_resolved_def tc)
  then have rc: "async_all_mm_data c = Inr (Some [(''image'', Many [10, 20])])"
    by (simp add: tc resolved_def all_mm_data_def mm_inputs_of_def)
  from n0 acc n1 ra rb rc show ?thesis
    unfolding a_def b_def c_def by blast
qed

text \<open>
  Claim C3 as stated fails in its last part: with one image-embeds item and nothing else,
  no MixedModality condition holds, yet what is returned is not the modality-to-items
  mapping \<open>{image_embeds: [7]}\<close> but \<open>{image: 7}\<close>.
\<close>

theorem all_mm_data_embeds_counterexample:
  "recorded \<lparr>config = gpt2_config, items_by_modality = [(''image_embeds'', [7 :: nat])]\<rparr> ''image'' = []
   \<and> length (recorded \<lparr>config = gpt2_config, items_by_modality = [(''image_embeds'', [7 :: nat])]\<rparr>
               ''image_embeds'') = 1
   \<and> all_mm_data \<lparr>config = gpt2_config, items_by_modality = [(''image_embeds'', [7 :: nat])]\<rparr>
       = Inr (Some [(''image'', Single 7)])
   \<and> items_mapping [(''image_embeds'', [7 :: nat])] = [(''image_embeds'', Many [7])]
   \<and> all_mm_data \<lparr>config = gpt2_config, items_by_modality = [(''image_embeds'', [7 :: nat])]\<rparr>
       \<noteq> Inr (Some (items_mapping [(''image_embeds'', [7 :: nat])]))"
  by (simp add: recorded_def dict_get_default_def all_mm_data_def mm_inputs_of_def items_mapping_def)

section \<open>Proofs: placeholder back-fill\<close>

lemma join_snoc: "join sep (xs @ [t]) = concat (map (\<lambda>x. x @ sep) xs) @ t"
proof (induction xs)
  case Nil
  then show ?case by simp
next
  case (Cons x xs)
  then show ?case by (cases xs) simp_all
qed

lemma backfill_loop_pairs:
  assumes "distinct (map fst ps)" and "\<forall>(p, c) \<in> set ps. map_of counts p = Some c"
  shows "backfill_loop (map fst ps) counts body missing =
           (case find (\<lambda>(p, c). c < int (str_count body p)) ps of
              Some (p, c) \<Rightarrow> Inl (PlaceholderAccounting p)
            | None \<Rightarrow>
                Inr (missing @ concat (map (\<lambda>(p, c). replicate (nat (c - int (str_count body p))) p) ps)))"
  using assms
proof (induction ps arbitrary: counts missing)
  case Nil
  then show ?case by simp
next
  case (Cons pc ps)
  obtain p c where pc: "pc = (p, c)" by (cases pc)
  from Cons.prems pc have look: "map_of counts p = Some c" by simp
  show ?case
  proof (cases "c < int (str_count body p)")
    case True
    with look show ?thesis unfolding pc by (simp add: Let_def)
  next
    case False
    let ?counts1 = "AList.update p (c - int (str_count body p)) counts"
    have d: "distinct (map fst ps)" using Cons.prems by simp
    have "\<forall>(q, c') \<in> set ps. map_of ?counts1 q = Some c'"
    proof (clarify)
      fix q c' assume in_ps: "(q, c') \<in> set ps"
      with Cons.prems pc have "q \<noteq> p" by (auto simp add: rev_image_eqI)
      moreover from in_ps Cons.prems have "map_of counts q = Some c'" by auto
      ultimately show "map_of ?counts1 q = Some c'" by (simp add: update_conv')
    qed
    from Cons.IH [OF d this] False look show ?thesis
      unfolding pc by (simp add: Let_def split: option.splits)
  qed
qed

lemma distinct_map_of_pairs:
  "distinct (map fst ps) \<Longrightarrow> \<forall>(p, c) \<in> set ps. map_of ps p = Some c"
  by auto

lemma get_full_closed_form:
  assumes "distinct (map fst counts)"
  shows "get_full_multimodal_text_prompt counts body =
           (case first_overused counts body of
              Some (p, c) \<Rightarrow> Inl (PlaceholderAccounting p)
            | None \<Rightarrow> Inr (concat (map (\<lambda>p. p @ newline) (missing_copies counts body)) @ body))"
  unfolding get_full_multimodal_text_prompt_def first_overused_def missing_copies_def
  by (simp add: backfill_loop_pairs [OF assms distinct_map_of_pairs [OF assms]] join_snoc
      split: option.splits)

lemma str_count_zero_iff:
  assumes "sub \<noteq> []"
  shows "str_count s sub = 0 \<longleftrightarrow> \<not> (\<exists>a b. s = a @ sub @ b)"
  using assms
proof (induction s sub rule: str_count.induct)
  case (1 s sub)
  show ?case
  proof (cases "s = []")
    case True
    have "str_count s sub = 0" by (subst str_count.simps) (simp add: True "1.prems")
    moreover from True "1.prems" have "\<not> (\<exists>a b. s = a @ sub @ b)" by simp
    ultimately show ?thesis by simp
  next
    case False
    then obtain c t where s: "s = c # t" by (cases s) auto
    show ?thesis
    proof (cases "take (length sub) s = sub")
      case True
      then have "s = [] @ sub @ drop (length sub) s" by (metis append_Nil append_take_drop_id)
      then have "\<exists>a b. s = a @ sub @ b" by blast
      moreover have "str_count s sub \<noteq> 0"
        by (subst str_count.simps) (simp add: True False "1.prems")
      ultimately show ?thesis by simp
    next
      case nt: False
      have eq: "str_count s sub = str_count (tl s) sub"
        by (subst str_count.simps) (simp add: nt False "1.prems")
      have IH: "str_count (tl s) sub = 0 \<longleftrightarrow> \<not> (\<exists>a b. tl s = a @ sub @ b)"
        using "1.IH"(2) "1.prems" False nt by blast
      have "(\<exists>a b. s = a @ sub @ b) \<longleftrightarrow> (\<exists>a b. t = a @ sub @ b)"
      proof
        assume "\<exists>a b. s = a @ sub @ b"
        then obtain a b where ab: "s = a @ sub @ b" by blast
        show "\<exists>a b. t = a @ sub @ b"
        proof (cases a)
          case Nil
          with ab have "take (length sub) s = sub" by simp
          with nt show ?thesis by simp
        next
          case (Cons c' a')
          with ab s have "t = a' @ sub @ b" by simp
          then show ?thesis by blast
        qed
      next
        assume "\<exists>a b. t = a @ sub @ b"
        then obtain a b where "t = a @ sub @ b" by blast
        with s have "s = (c # a) @ sub @ b" by simp
        then show "\<exists>a b. s = a @ sub @ b" by blast
      qed
      with eq IH s show ?thesis by simp
    qed
  qed
qed

lemma str_count_first:
  assumes "sub \<noteq> []" and "\<not> (\<exists>a' b'. a @ butlast sub = a' @ sub @ b')"
  shows "str_count (a @ sub @ b) sub = Suc (str_count b sub)"
  using assms(2)
proof (induction a)
  case Nil
  show ?case by (subst str_count.simps) (simp add: assms(1))
next
  case (Cons c a)
  have nopre: "take (length sub) ((c # a) @ sub @ b) \<noteq> sub"
  proof
    assume t: "take (length sub) ((c # a) @ sub @ b) = sub"
    have len: "length sub \<le> length ((c # a) @ butlast sub)"
      using assms(1) by simp
    have "(c # a) @ sub @ b = ((c # a) @ butlast sub) @ (last sub # b)"
      using assms(1) by simp
    then have "take (length sub) ((c # a) @ sub @ b) = take (length sub) ((c # a) @ butlast sub)"
      using len by (metis diff_is_0_eq take_0 take_append append_Nil2)
    with t have "take (length sub) ((c # a) @ butlast sub) = sub" by simp
    then have "(c # a) @ butlast sub = [] @ sub @ drop (length sub) ((c # a) @ butlast sub)"
      by (metis append_Nil append_take_drop_id)
    with Cons.prems show False by blast
  qed
  have "\<not> (\<exists>a' b'. a @ butlast sub = a' @ sub @ b')"
  proof
    assume "\<exists>a' b'. a @ butlast sub = a' @ sub @ b'"
    then obtain a' b' where "a @ butlast sub = a' @ sub @ b'" by blast
    then have "(c # a) @ butlast sub = (c # a') @ sub @ b'" by simp
    with Cons.prems show False by blast
  qed
  from Cons.IH [OF this] have IH: "str_count (a @ sub @ b) sub = Suc (str_count b sub)" .
  have "str_count ((c # a) @ sub @ b) sub = str_count (a @ sub @ b) sub"
    by (subst str_count.simps) (use nopre assms(1) in simp)
  with IH show ?case by simp
qed

section \<open>Proofs: content parts\<close>

lemma mm_part_not_str:
  "parse_chat_message_content_mm_part (JStr s) = ([], Inl AssertionError)"
  by (simp add: parse_chat_message_content_mm_part_def)

lemma part_empty_dropped:
  assumes "parse_chat_message_content_mm_part part = (w, Inr (part_type, content))"
    and "part_type \<in> set VALID_MESSAGE_CONTENT_MM_PART_TYPES" and "\<not> truthy content"
  shows "parse_chat_message_content_part mm_parser part st wrap_dicts =
           ((st, w @ [SkippingEmpty part_type]), Inr None)"
proof -
  from assms show ?thesis
    by (cases part) (simp_all add: parse_chat_message_content_part_def mm_part_not_str)
qed

lemma parts_loop_dropped:
  assumes "parse_chat_message_content_part mm_parser part st wrap_dicts = ((st, w), Inr None)"
  shows "parts_loop mm_parser (part # parts) wrap_dicts st log content =
           parts_loop mm_parser parts wrap_dicts st (log @ w) content"
  using assms by simp

lemma media_types_valid: "t \<in> set media_types \<Longrightarrow> t \<in> set VALID_MESSAGE_CONTENT_MM_PART_TYPES"
  by (auto simp add: media_types_def VALID_MESSAGE_CONTENT_MM_PART_TYPES_def)

lemma text_part_extracted:
  assumes "dict_get d ''type'' = JStr t" and "t = ''text'' \<or> t = ''refusal''"
  shows "parse_chat_message_content_mm_part (JDict d) = ([], Inr (t, dict_get_default d t (JStr [])))"
  using assms by (auto simp add: parse_chat_message_content_mm_part_def MM_PARSER_MAP_def)

lemma map_of_MM_PARSER_MAP_None:
  "t \<notin> set VALID_MESSAGE_CONTENT_MM_PART_TYPES \<Longrightarrow> map_of MM_PARSER_MAP t = None"
  by (simp add: VALID_MESSAGE_CONTENT_MM_PART_TYPES_def MM_PARSER_MAP_def)

lemma part_missing_type:
  assumes "dict_get d ''type'' = JNull" "dict_get d ''image_url'' = JNull"
    "dict_get d ''audio_url'' = JNull" "dict_get d ''input_audio'' = JNull"
    "dict_get d ''video_url'' = JNull"
  shows "parse_chat_message_content_part mm_parser (JDict d) st wrap_dicts = ((st, []), Inl MissingType)"
  using assms
  by (simp add: parse_chat_message_content_part_def parse_chat_message_content_mm_part_def)

lemma part_invalid_type:
  assumes "dict_get d ''type'' = v" "v \<noteq> JNull" "\<forall>t. v \<noteq> JStr t"
  shows "parse_chat_message_content_part mm_parser (JDict d) st wrap_dicts = ((st, []), Inl InvalidType)"
  using assms
  by (cases v) (simp_all add: parse_chat_message_content_part_def parse_chat_message_content_mm_part_def)

lemma part_unknown_type:
  assumes "dict_get d ''type'' = JStr t" "t \<notin> set VALID_MESSAGE_CONTENT_MM_PART_TYPES"
  shows "parse_chat_message_content_part mm_parser (JDict d) st wrap_dicts =
           ((st, []), Inl (UnknownPartType t))"
proof -
  from assms have "parse_chat_message_content_mm_part (JDict d) =
      ([], Inr (t, JStr ''unknown part_type content''))"
    by (simp add: parse_chat_message_content_mm_part_def map_of_MM_PARSER_MAP_None)
  moreover from assms(2) have "t \<noteq> ''text''" "t \<noteq> ''refusal''" "t \<noteq> ''image_url''"
    "t \<noteq> ''image_embeds''" "t \<noteq> ''audio_url''" "t \<noteq> ''input_audio''" "t \<noteq> ''video_url''"
    by (auto simp add: VALID_MESSAGE_CONTENT_MM_PART_TYPES_def)
  ultimately show ?thesis using assms(2)
    by (simp add: parse_chat_message_content_part_def)
qed

section \<open>Proofs: decoding tool-call arguments\<close>

lemma decode_calls_append:
  "decode_calls loads (xs @ ys) st =
     (case decode_calls loads xs st of
        (st1, Inl e) \<Rightarrow> (st1, Inl e)
      | (st1, Inr u) \<Rightarrow> decode_calls loads ys st1)"
  by (induction xs arbitrary: st) (simp_all split: sum.splits)

lemma assistant_calls_Cons:
  "assistant_calls (message # rest) =
     (case (if msg_role message = ''assistant'' then msg_tool_calls message else None) of
        None \<Rightarrow> []
      | Some calls \<Rightarrow> calls) @ assistant_calls rest"
  by (simp add: assistant_calls_def)

lemma postprocess_as_calls:
  "postprocess_messages loads messages st = decode_calls loads (assistant_calls messages) st"
proof (induction messages arbitrary: st)
  case Nil
  then show ?case by (simp add: assistant_calls_def)
next
  case (Cons m ms)
  show ?case
  proof (cases "if msg_role m = ''assistant'' then msg_tool_calls m else None")
    case None
    with Cons show ?thesis by (simp add: assistant_calls_Cons)
  next
    case (Some calls)
    obtain st1 r where d: "decode_calls loads calls st = (st1, r)"
      by (cases "decode_calls loads calls st")
    show ?thesis
      using Some d Cons [of st1]
      by (cases r) (simp_all add: assistant_calls_Cons decode_calls_append)
  qed
qed

lemma decoded_store_Nil: "decoded_store loads [] st = st"
  by (simp add: decoded_store_def)

lemma decode_calls_distinct:
  assumes "distinct (map call_function calls)"
    and "\<forall>a \<in> set (map call_function calls). \<not> isl (py_json_loads loads (arguments (st a)))"
  shows "decode_calls loads calls st = (decoded_store loads (map call_function calls) st, Inr ())"
  using assms
proof (induction calls arbitrary: st)
  case Nil
  then show ?case by (simp add: decoded_store_Nil)
next
  case (Cons item rest)
  let ?a = "call_function item"
  let ?refs = "map call_function rest"
  from Cons.prems(2) obtain v where v: "py_json_loads loads (arguments (st ?a)) = Inr v"
    by (cases "py_json_loads loads (arguments (st ?a))") auto
  let ?st1 = "st(?a := (st ?a)\<lparr>arguments := v\<rparr>)"
  from Cons.prems(1) have fresh: "?a \<notin> set ?refs" and d: "distinct ?refs" by simp_all
  have same: "?st1 b = st b" if "b \<in> set ?refs" for b
  proof -
    from that fresh have "b \<noteq> ?a" by blast
    then show ?thesis by simp
  qed
  have "\<forall>b \<in> set ?refs. \<not> isl (py_json_loads loads (arguments (?st1 b)))"
    using Cons.prems(2) same by simp
  from Cons.IH [OF d this]
  have rest: "decode_calls loads rest ?st1 = (decoded_store loads ?refs ?st1, Inr ())" .
  have "decoded_store loads ?refs ?st1 = decoded_store loads (?a # ?refs) st"
  proof
    fix b
    show "decoded_store loads ?refs ?st1 b = decoded_store loads (?a # ?refs) st b"
    proof (cases "b = ?a")
      case True
      with fresh v show ?thesis by (simp add: decoded_store_def decoded_def)
    next
      case False
      then show ?thesis by (simp add: decoded_store_def)
    qed
  qed
  with rest v show ?case by simp
qed

subsection \<open>Claims about the back-fill\<close>

text \<open>
  Claim C4. For a placeholder-count dict (distinct keys, in first-encountered order) and a
  text body, \<open>_get_full_multimodal_text_prompt\<close> subtracts from each count the
  occurrences \<open>str.count\<close> finds in the body; it fails with the PlaceholderAccounting
  \<open>ValueError\<close> at the first placeholder whose remainder is negative, and otherwise
  returns the missing copies, each followed by a newline, in the dict's order, and then
  the body. The occurrences of a non-empty placeholder are counted from left to right
  without overlap: there is none exactly when the placeholder is not a part of the body,
  and its first occurrence counts one on top of those in what follows it. In particular
  a placeholder counted twice that is not a part of \<open>Describe these.\<close> is put twice,
  each on its own line, before that body.
\<close>

theorem backfill:
  assumes "distinct (map fst counts)"
  shows "get_full_multimodal_text_prompt counts body =
           (case first_overused counts body of
              Some (p, c) \<Rightarrow> Inl (PlaceholderAccounting p)
            | None \<Rightarrow> Inr (concat (map (\<lambda>p. p @ [CHR 0x0A]) (missing_copies counts body)) @ body))
         \<and> (ph \<noteq> [] \<longrightarrow> (str_count body ph = 0 \<longleftrightarrow> \<not> (\<exists>a b. body = a @ ph @ b)))
         \<and> (ph \<noteq> [] \<and> \<not> (\<exists>a b. before @ butlast ph = a @ ph @ b) \<longrightarrow>
              str_count (before @ ph @ after) ph = Suc (str_count after ph))
         \<and> (\<not> (\<exists>a b. ''Describe these.'' = a @ ph @ b) \<longrightarrow>
              get_full_multimodal_text_prompt [(ph, 2)] ''Describe these.'' =
                Inr (ph @ [CHR 0x0A] @ ph @ [CHR 0x0A] @ ''Describe these.''))"
proof -
  have closed: "get_full_multimodal_text_prompt counts body =
           (case first_overused counts body of
              Some (p, c) \<Rightarrow> Inl (PlaceholderAccounting p)
            | None \<Rightarrow> Inr (concat (map (\<lambda>p. p @ [CHR 0x0A]) (missing_copies counts body)) @ body))"
    by (rule get_full_closed_form [OF assms, of body, unfolded newline_def])
  have zero: "ph \<noteq> [] \<longrightarrow> (str_count body ph = 0 \<longleftrightarrow> \<not> (\<exists>a b. body = a @ ph @ b))"
    using str_count_zero_iff [of ph body] by blast
  have first: "ph \<noteq> [] \<and> \<not> (\<exists>a b. before @ butlast ph = a @ ph @ b) \<longrightarrow>
              str_count (before @ ph @ after) ph = Suc (str_count after ph)"
    using str_count_first [of ph before after] by blast
  have example: "\<not> (\<exists>a b. ''Describe these.'' = a @ ph @ b) \<longrightarrow>
              get_full_multimodal_text_prompt [(ph, 2)] ''Describe these.'' =
                Inr (ph @ [CHR 0x0A] @ ph @ [CHR 0x0A] @ ''Describe these.'')"
  proof
    assume no: "\<not> (\<exists>a b. ''Describe these.'' = a @ ph @ b)"
    have "ph \<noteq> []"
    proof
      assume "ph = []"
      then have "''Describe these.'' = [] @ ph @ ''Describe these.''" by simp
      with no show False by blast
    qed
    with no have z: "str_count ''Describe these.'' ph = 0"
      using str_count_zero_iff [of ph "''Describe these.''"] by blast
    have "distinct (map fst [(ph, 2 :: int)])" by simp
    from get_full_closed_form [OF this, of "''Describe these.''"] z
    show "get_full_multimodal_text_prompt [(ph, 2)] ''Describe these.'' =
                Inr (ph @ [CHR 0x0A] @ ph @ [CHR 0x0A] @ ''Describe these.'')"
      by (simp add: first_overused_def missing_copies_def numeral_2_eq_2 newline_def)
  qed
  from closed zero first example show ?thesis by blast
qed

text \<open>
  The specification's example, run through part parsing: limit \<open>{image: 2}\<close> on an
  \<open>mllama\<close> model, two image parts and the text \<open>Describe these.\<close>, flat format. Then
  a body that already holds one of the two placeholders, so that only one is put in front;
  a body that holds the placeholder twice for a count of one, which fails; and two
  placeholders, put in front in the dict's order.
\<close>

lemma no_image_in_describe: "\<not> (\<exists>a b. ''Describe these.'' = a @ ''<|image|>'' @ b)"
proof
  assume "\<exists>a b. ''Describe these.'' = a @ ''<|image|>'' @ b"
  then obtain a b where "''Describe these.'' = a @ ''<|image|>'' @ b" by blast
  then have "set ''Describe these.'' = set (a @ ''<|image|>'' @ b)" by simp
  then have "CHR ''<'' \<in> set ''Describe these.''" by simp
  then show False by simp
qed

lemma no_image_in_look: "\<not> (\<exists>a b. ''Look at '' @ butlast ''<|image|>'' = a @ ''<|image|>'' @ b)"
proof
  assume "\<exists>a b. ''Look at '' @ butlast ''<|image|>'' = a @ ''<|image|>'' @ b"
  then obtain a b where "''Look at '' @ butlast ''<|image|>'' = a @ ''<|image|>'' @ b" by blast
  then have "set (''Look at '' @ butlast ''<|image|>'') = set (a @ ''<|image|>'' @ b)" by simp
  then have "CHR ''>'' \<in> set (''Look at '' @ butlast ''<|image|>'')" by simp
  then show False by simp
qed

lemma no_image_in_now: "\<not> (\<exists>a b. '' now.'' = a @ ''<|image|>'' @ b)"
proof
  assume "\<exists>a b. '' now.'' = a @ ''<|image|>'' @ b"
  then obtain a b where "'' now.'' = a @ ''<|image|>'' @ b" by blast
  then have "set '' now.'' = set (a @ ''<|image|>'' @ b)" by simp
  then have "CHR ''<'' \<in> set '' now.''" by simp
  then show False by simp
qed

lemma two_images_loop:
  "parts_loop (MultiModalContentParser echo_connector)
     [image_url_part ''a.png'', image_url_part ''b.png'', text_part ''Describe these.'']
     False (example_parser (mllama_config [(''image'', 2)])) [] [] =
   ((\<lparr>mm_tracker = \<lparr>config = mllama_config [(''image'', 2)],
                     items_by_modality = [(''image'', [Item (JStr ''a.png''), Item (JStr ''b.png'')])]\<rparr>,
      placeholder_counts = [(''<|image|>'', 2)]\<rparr>, []),
    Inr [JStr ''Describe these.''])"
  by (simp add: image_url_part_def text_part_def example_parser_def create_parser_def
      new_tracker_def parse_chat_message_content_part_def parse_chat_message_content_mm_part_def
      MM_PARSER_MAP_def dict_get_def dict_get_default_def get_url_def
      VALID_MESSAGE_CONTENT_MM_PART_TYPES_def media_part_def MultiModalContentParser_def
      echo_connector_def fetch_and_track_def track_def add_def allowed_items_def mllama_config_def
      defaultdict_get_def placeholder_str_def startswith_def add_placeholder_def)

theorem backfill_witness:
  "distinct (map fst [(''<|image|>'', 2 :: int)])
   \<and> \<not> (\<exists>a b. ''Describe these.'' = a @ ''<|image|>'' @ b)
   \<and> parse_chat_message_content_parts (MultiModalContentParser echo_connector) ''user''
       [image_url_part ''a.png'', image_url_part ''b.png'', text_part ''Describe these.'']
       (new_tracker (mllama_config [(''image'', 2)])) False =
     ((\<lparr>config = mllama_config [(''image'', 2)],
        items_by_modality = [(''image'', [Item (JStr ''a.png''), Item (JStr ''b.png'')])]\<rparr>, []),
      Inr [ConversationMessage ''user''
             (JStr (''<|image|>'' @ [CHR 0x0A] @ ''<|image|>'' @ [CHR 0x0A] @ ''Describe these.''))])
   \<and> \<not> (\<exists>a b. ''Look at '' @ butlast ''<|image|>'' = a @ ''<|image|>'' @ b)
   \<and> str_count ''Look at <|image|> now.'' ''<|image|>'' = 1
   \<and> get_full_multimodal_text_prompt [(''<|image|>'', 2)] ''Look at <|image|> now.'' =
       Inr (''<|image|>'' @ [CHR 0x0A] @ ''Look at <|image|> now.'')
   \<and> get_full_multimodal_text_prompt [(''<|image|>'', 1)] ''<|image|> and <|image|>'' =
       Inl (PlaceholderAccounting ''<|image|>'')
   \<and> get_full_multimodal_text_prompt [(''<|image|>'', 1), (''<|audio|>'', 2)] ''Hi'' =
       Inr (''<|image|>'' @ [CHR 0x0A] @ ''<|audio|>'' @ [CHR 0x0A] @ ''<|audio|>'' @ [CHR 0x0A]
            @ ''Hi'')"
proof -
  have d: "distinct (map fst [(''<|image|>'', 2 :: int)])" by simp
  have d1: "distinct (map fst [(''<|image|>'', 1 :: int)])" by simp
  have d2: "distinct (map fst [(''<|image|>'', 1 :: int), (''<|audio|>'', 2)])" by simp
  have ne: "''<|image|>'' \<noteq> []" by simp
  from backfill [OF d, of "''Describe these.''" "''<|image|>''"] no_image_in_describe
  have "get_full_multimodal_text_prompt [(''<|image|>'', 2)] ''Describe these.'' =
          Inr (''<|image|>'' @ [CHR 0x0A] @ ''<|image|>'' @ [CHR 0x0A] @ ''Describe these.'')"
    by blast
  with two_images_loop d have parsed:
    "parse_chat_message_content_parts (MultiModalContentParser echo_connector) ''user''
       [image_url_part ''a.png'', image_url_part ''b.png'', text_part ''Describe these.'']
       (new_tracker (mllama_config [(''image'', 2)])) False =
     ((\<lparr>config = mllama_config [(''image'', 2)],
        items_by_modality = [(''image'', [Item (JStr ''a.png''), Item (JStr ''b.png'')])]\<rparr>, []),
      Inr [ConversationMessage ''user''
             (JStr (''<|image|>'' @ [CHR 0x0A] @ ''<|image|>'' @ [CHR 0x0A] @ ''Describe these.''))])"
    by (simp add: parse_chat_message_content_parts_def example_parser_def newline_def)
  from backfill [OF d, of "'' now.''" "''<|image|>''" "''Look at ''" "'' now.''"]
    ne no_image_in_now no_image_in_look
  have "str_count '' now.'' ''<|image|>'' = 0"
    and "str_count (''Look at '' @ ''<|image|>'' @ '' now.'') ''<|image|>''
           = Suc (str_count '' now.'' ''<|image|>'')"
    by blast+
  then have one: "str_count ''Look at <|image|> now.'' ''<|image|>'' = 1" by simp
  from backfill [OF d, of "''Look at <|image|> now.''" "''<|image|>''"] one
  have pre: "get_full_multimodal_text_prompt [(''<|image|>'', 2)] ''Look at <|image|> now.'' =
       Inr (''<|image|>'' @ [CHR 0x0A] @ ''Look at <|image|> now.'')"
    by (simp add: first_overused_def missing_copies_def)
  have two: "str_count ''<|image|> and <|image|>'' ''<|image|>'' = 2"
    by (simp add: str_count.simps)
  from backfill [OF d1, of "''<|image|> and <|image|>''" "''<|image|>''"] two
  have over: "get_full_multimodal_text_prompt [(''<|image|>'', 1)] ''<|image|> and <|image|>'' =
       Inl (PlaceholderAccounting ''<|image|>'')"
    by (simp add: first_overused_def)
  have none: "str_count ''Hi'' ''<|image|>'' = 0" "str_count ''Hi'' ''<|audio|>'' = 0"
    by (simp_all add: str_count.simps)
  from backfill [OF d2, of "''Hi''" "''<|image|>''"] none
  have order: "get_full_multimodal_text_prompt [(''<|image|>'', 1), (''<|audio|>'', 2)] ''Hi'' =
       Inr (''<|image|>'' @ [CHR 0x0A] @ ''<|audio|>'' @ [CHR 0x0A] @ ''<|audio|>'' @ [CHR 0x0A]
            @ ''Hi'')"
    by (simp add: first_overused_def missing_copies_def numeral_2_eq_2)
  from d no_image_in_describe parsed no_image_in_look one pre over order show ?thesis
    by blast
qed

subsection \<open>Claims about content parts\<close>

text \<open>
  Claim C5. A part whose extracted type is one of the five media types and whose extracted
  content is empty (falsy) makes \<open>_parse_chat_message_content_part\<close> return \<open>None\<close>
  without raising and without touching the parser or the tracker, whatever the parser's
  methods are (blocking or concurrent) and whatever the target format; the only effect is
  the warning. The loop over the parts then goes on with the remaining parts from the same
  state and the same collected content.
\<close>

theorem empty_media_part_dropped:
  assumes "parse_chat_message_content_mm_part part = (w, Inr (part_type, content))"
    and "part_type \<in> set media_types" and "\<not> truthy content"
  shows "parse_chat_message_content_part mm_parser part st wrap_dicts =
           ((st, w @ [SkippingEmpty part_type]), Inr None)
         \<and> parts_loop mm_parser (part # parts) wrap_dicts st log acc =
             parts_loop mm_parser parts wrap_dicts st (log @ w @ [SkippingEmpty part_type]) acc"
proof -
  from assms(2) have "part_type \<in> set VALID_MESSAGE_CONTENT_MM_PART_TYPES"
    by (rule media_types_valid)
  from part_empty_dropped [OF assms(1) this assms(3)]
  have p: "parse_chat_message_content_part mm_parser part st wrap_dicts =
           ((st, w @ [SkippingEmpty part_type]), Inr None)" .
  from parts_loop_dropped [OF p] p show ?thesis by simp
qed

text \<open>
  An \<open>image_url\<close> part with the empty URL, followed by a text part, on a model family
  the catalog does not know: had the image not been dropped, \<open>add\<close> would have raised.
\<close>

theorem empty_media_part_dropped_witness:
  "parse_chat_message_content_mm_part (image_url_part []) = ([], Inr (''image_url'', JStr []))
   \<and> ''image_url'' \<in> set media_types \<and> \<not> truthy (JStr [])
   \<and> parse_chat_message_content_part (MultiModalContentParser echo_connector) (image_url_part [])
       (example_parser gpt2_config) False =
       ((example_parser gpt2_config, [SkippingEmpty ''image_url'']), Inr None)
   \<and> parts_loop (MultiModalContentParser echo_connector) [image_url_part [], text_part ''hi''] False
       (example_parser gpt2_config) [] [] =
       ((example_parser gpt2_config, [SkippingEmpty ''image_url'']), Inr [JStr ''hi''])"
proof -
  have a: "parse_chat_message_content_mm_part (image_url_part []) = ([], Inr (''image_url'', JStr []))"
    by (simp add: image_url_part_def parse_chat_message_content_mm_part_def MM_PARSER_MAP_def
        dict_get_def dict_get_default_def get_url_def)
  have b: "''image_url'' \<in> set media_types" by (simp add: media_types_def)
  have c: "\<not> truthy (JStr [])" by simp
  have t: "parts_loop (MultiModalContentParser echo_connector) [text_part ''hi''] False
       (example_parser gpt2_config) [SkippingEmpty ''image_url''] [] =
       ((example_parser gpt2_config, [SkippingEmpty ''image_url'']), Inr [JStr ''hi''])"
    by (simp add: text_part_def parse_chat_message_content_part_def
        parse_chat_message_content_mm_part_def MM_PARSER_MAP_def dict_get_def dict_get_default_def
        VALID_MESSAGE_CONTENT_MM_PART_TYPES_def)
  from empty_media_part_dropped [OF a b c, of "MultiModalContentParser echo_connector"
      "example_parser gpt2_config" False "[text_part ''hi'']" "[]" "[]"] a b c t
  show ?thesis by simp
qed

text \<open>
  Claim C9. A dict part tagged \<open>text\<close> or \<open>refusal\<close> whose payload is the empty
  string, or is missing so that the default \<open>""\<close> is read, is dropped like an empty
  media part: \<open>None\<close> is returned with the warning, in both target formats, and the
  loop over the parts appends nothing for it.
\<close>

theorem empty_text_part_dropped:
  assumes "dict_get d ''type'' = JStr t" and "t = ''text'' \<or> t = ''refusal''"
    and "dict_get_default d t (JStr []) = JStr []"
  shows "parse_chat_message_content_part mm_parser (JDict d) st wrap_dicts =
           ((st, [SkippingEmpty t]), Inr None)
         \<and> parts_loop mm_parser (JDict d # parts) wrap_dicts st log acc =
             parts_loop mm_parser parts wrap_dicts st (log @ [SkippingEmpty t]) acc"
proof -
  from assms(2) have v: "t \<in> set VALID_MESSAGE_CONTENT_MM_PART_TYPES"
    by (auto simp add: VALID_MESSAGE_CONTENT_MM_PART_TYPES_def)
  have e: "parse_chat_message_content_mm_part (JDict d) = ([], Inr (t, JStr []))"
    using text_part_extracted [OF assms(1,2)] assms(3) by simp
  have "\<not> truthy (JStr [])" by simp
  from part_empty_dropped [OF e v this]
  have p: "parse_chat_message_content_part mm_parser (JDict d) st wrap_dicts =
           ((st, [SkippingEmpty t]), Inr None)" by simp
  from parts_loop_dropped [OF p] p show ?thesis by simp
qed

theorem empty_text_part_dropped_witness:
  "dict_get [(''type'', JStr ''text''), (''text'', JStr [])] ''type'' = JStr ''text''
   \<and> dict_get_default [(''type'', JStr ''text''), (''text'', JStr [])] ''text'' (JStr []) = JStr []
   \<and> parse_chat_message_content_part (MultiModalContentParser echo_connector) (text_part [])
       (example_parser gpt2_config) True =
       ((example_parser gpt2_config, [SkippingEmpty ''text'']), Inr None)
   \<and> parse_chat_message_content_part (MultiModalContentParser echo_connector) (text_part [])
       (example_parser gpt2_config) False =
       ((example_parser gpt2_config, [SkippingEmpty ''text'']), Inr None)"
proof -
  let ?d = "[(''type'', JStr ''text''), (''text'', JStr [])]"
  have a: "dict_get ?d ''type'' = JStr ''text''" by (simp add: dict_get_def dict_get_default_def)
  have b: "''text'' = ''text'' \<or> ''text'' = ''refusal''" by simp
  have c: "dict_get_default ?d ''text'' (JStr []) = JStr []" by (simp add: dict_get_default_def)
  from empty_text_part_dropped [OF a b c, of "MultiModalContentParser echo_connector"
      "example_parser gpt2_config" True]
    empty_text_part_dropped [OF a b c, of "MultiModalContentParser echo_connector"
      "example_parser gpt2_config" False] a c
  show ?thesis by (simp add: text_part_def)
qed

text \<open>
  Claim C6, as amended. For a dict part: when \<open>type\<close> is absent (or \<open>None\<close>) and none
  of the legacy fields \<open>image_url\<close>, \<open>audio_url\<close>, \<open>input_audio\<close>, \<open>video_url\<close> holds
  a value, parsing fails with the \<open>ValueError\<close> "Missing 'type' field"; when \<open>type\<close>
  holds a value that is not a string, it fails with the \<open>ValueError\<close> "Invalid 'type'
  field"; when \<open>type\<close> holds a string that is not a recognised part type, it fails with
  \<open>NotImplementedError\<close> "Unknown part type". In each case the parser state is
  untouched and nothing is logged.
\<close>

theorem part_type_errors:
  "(dict_get d ''type'' = JNull \<and> dict_get d ''image_url'' = JNull
      \<and> dict_get d ''audio_url'' = JNull \<and> dict_get d ''input_audio'' = JNull
      \<and> dict_get d ''video_url'' = JNull
     \<longrightarrow> parse_chat_message_content_part mm_parser (JDict d) st wrap_dicts = ((st, []), Inl MissingType))
   \<and> (dict_get d ''type'' \<noteq> JNull \<and> (\<forall>t. dict_get d ''type'' \<noteq> JStr t)
     \<longrightarrow> parse_chat_message_content_part mm_parser (JDict d) st wrap_dicts = ((st, []), Inl InvalidType))
   \<and> (dict_get d ''type'' = JStr t \<and> t \<notin> set VALID_MESSAGE_CONTENT_MM_PART_TYPES
     \<longrightarrow> parse_chat_message_content_part mm_parser (JDict d) st wrap_dicts
           = ((st, []), Inl (UnknownPartType t)))"
  using part_missing_type [of d mm_parser st wrap_dicts]
    part_invalid_type [of d "dict_get d ''type''" mm_parser st wrap_dicts]
    part_unknown_type [of d t mm_parser st wrap_dicts]
  by blast

theorem part_type_errors_witness:
  "parse_chat_message_content_part (MultiModalContentParser echo_connector)
       (JDict [(''text'', JStr ''hi'')]) (example_parser gpt2_config) False
     = ((example_parser gpt2_config, []), Inl MissingType)
   \<and> parse_chat_message_content_part (MultiModalContentParser echo_connector)
       (JDict [(''type'', JInt 5)]) (example_parser gpt2_config) False
     = ((example_parser gpt2_config, []), Inl InvalidType)
   \<and> parse_chat_message_content_part (MultiModalContentParser echo_connector)
       (JDict [(''type'', JStr ''foo'')]) (example_parser gpt2_config) False
     = ((example_parser gpt2_config, []), Inl (UnknownPartType ''foo''))"
  using part_type_errors [of "[(''text'', JStr ''hi'')]" "MultiModalContentParser echo_connector"
      "example_parser gpt2_config" False "''foo''"]
    part_type_errors [of "[(''type'', JInt 5)]" "MultiModalContentParser echo_connector"
      "example_parser gpt2_config" False "''foo''"]
    part_type_errors [of "[(''type'', JStr ''foo'')]" "MultiModalContentParser echo_connector"
      "example_parser gpt2_config" False "''foo''"]
  by (simp add: dict_get_def dict_get_default_def VALID_MESSAGE_CONTENT_MM_PART_TYPES_def)

text \<open>
  Claim C6 as stated fails in its second half: the tag \<open>foo\<close> is present and is not a
  recognised string, and parsing does not fail with the invalid-type \<open>ValueError\<close> but
  with \<open>NotImplementedError\<close>.
\<close>

theorem unknown_type_counterexample:
  "dict_get [(''type'', JStr ''foo'')] ''type'' = JStr ''foo''
   \<and> ''foo'' \<notin> set VALID_MESSAGE_CONTENT_MM_PART_TYPES
   \<and> snd (parse_chat_message_content_part (MultiModalContentParser echo_connector)
       (JDict [(''type'', JStr ''foo'')]) (example_parser gpt2_config) False)
     = Inl (UnknownPartType ''foo'')
   \<and> snd (parse_chat_message_content_part (MultiModalContentParser echo_connector)
       (JDict [(''type'', JStr ''foo'')]) (example_parser gpt2_config) False)
     \<noteq> Inl InvalidType"
  by (simp add: dict_get_def dict_get_default_def VALID_MESSAGE_CONTENT_MM_PART_TYPES_def
      parse_chat_message_content_part_def parse_chat_message_content_mm_part_def MM_PARSER_MAP_def)

subsection \<open>Claims about tool-call arguments\<close>

text \<open>
  Claim C7, as amended. Take the tool calls of the assistant messages that carry a list of
  tool calls. When no two of them point to the same inner dict and \<open>json.loads\<close> accepts
  the arguments each inner dict holds, \<open>_postprocess_messages\<close> completes and leaves the
  store with the arguments of each of these dicts replaced, in place, by the value
  \<open>json.loads\<close> returned for them; the rest of each of these dicts and every other dict
  of the store are unchanged.
\<close>

theorem postprocess_decodes:
  assumes "distinct (call_refs messages)"
    and "\<forall>a \<in> set (call_refs messages). \<not> isl (py_json_loads loads (arguments (st a)))"
  shows "postprocess_messages loads messages st =
           (decoded_store loads (call_refs messages) st, Inr ())
         \<and> (\<forall>a \<in> set (call_refs messages).
              py_json_loads loads (arguments (st a)) =
                Inr (arguments (decoded_store loads (call_refs messages) st a))
              \<and> function_rest (decoded_store loads (call_refs messages) st a) = function_rest (st a))
         \<and> (\<forall>a. a \<notin> set (call_refs messages) \<longrightarrow>
              decoded_store loads (call_refs messages) st a = st a)"
proof -
  have "postprocess_messages loads messages st =
          (decoded_store loads (call_refs messages) st, Inr ())"
    using decode_calls_distinct [of "assistant_calls messages" loads st] assms
    by (simp add: postprocess_as_calls call_refs_def)
  moreover have "\<forall>a \<in> set (call_refs messages).
              py_json_loads loads (arguments (st a)) =
                Inr (arguments (decoded_store loads (call_refs messages) st a))
              \<and> function_rest (decoded_store loads (call_refs messages) st a) = function_rest (st a)"
    using assms(2) by (auto simp add: decoded_store_def decoded_def)
  moreover have "\<forall>a. a \<notin> set (call_refs messages) \<longrightarrow>
              decoded_store loads (call_refs messages) st a = st a"
    by (simp add: decoded_store_def)
  ultimately show ?thesis by blast
qed

text \<open>
  The specification's example: two assistant messages whose tool calls point to the
  inner dicts 0 and 1, each holding the encoded text \<open>{"a": 1}\<close>. After the pass both
  hold the structured value \<open>{a: 1}\<close>, and the inner dict 2, which no tool call points
  to, still holds the text.
\<close>

theorem postprocess_decodes_witness:
  "distinct (call_refs [assistant_message [0], assistant_message [1]])
   \<and> py_json_loads example_loads (arguments (wire_store 0)) = Inr (JDict [(''a'', JInt 1)])
   \<and> py_json_loads example_loads (arguments (wire_store 1)) = Inr (JDict [(''a'', JInt 1)])
   \<and> snd (postprocess_messages example_loads [assistant_message [0], assistant_message [1]]
            wire_store) = Inr ()
   \<and> arguments (fst (postprocess_messages example_loads
                        [assistant_message [0], assistant_message [1]] wire_store) 0)
       = JDict [(''a'', JInt 1)]
   \<and> arguments (fst (postprocess_messages example_loads
                        [assistant_message [0], assistant_message [1]] wire_store) 1)
       = JDict [(''a'', JInt 1)]
   \<and> arguments (fst (postprocess_messages example_loads
                        [assistant_message [0], assistant_message [1]] wire_store) 2)
       = JStr wire_a1"
proof -
  let ?ms = "[assistant_message [0], assistant_message [1]]"
  have refs: "call_refs ?ms = [0, 1]"
    by (simp add: call_refs_def assistant_calls_def assistant_message_def)
  have l: "\<And>a. py_json_loads example_loads (arguments (wire_store a)) = Inr (JDict [(''a'', JInt 1)])"
    by (simp add: py_json_loads_def example_loads_def wire_store_def)
  have h1: "distinct (call_refs ?ms)" unfolding refs by simp
  have h2: "\<forall>a \<in> set (call_refs ?ms). \<not> isl (py_json_loads example_loads (arguments (wire_store a)))"
    by (simp add: l)
  from postprocess_decodes [OF h1 h2]
  have "postprocess_messages example_loads ?ms wire_store =
          (decoded_store example_loads (call_refs ?ms) wire_store, Inr ())"
    by blast
  then show ?thesis
    unfolding refs by (simp add: l decoded_store_def decoded_def) (simp add: wire_store_def)
qed

text \<open>
  Claim C7 as stated fails: when the same assistant message is given twice, its tool
  call is one object that the conversation holds twice. Its arguments are encoded text
  that \<open>json.loads\<close> accepts, yet the pass does not complete: the first visit replaces
  the text by the decoded value, and the second visit hands that value, which is not a
  string, to \<open>json.loads\<close>, which raises \<open>TypeError\<close>.
\<close>

theorem postprocess_shared_call_counterexample:
  "call_refs [assistant_message [0], assistant_message [0]] = [0, 0]
   \<and> py_json_loads example_loads (arguments (wire_store 0)) = Inr (JDict [(''a'', JInt 1)])
   \<and> snd (postprocess_messages example_loads [assistant_message [0], assistant_message [0]]
            wire_store) = Inl TypeError
   \<and> arguments (fst (postprocess_messages example_loads
                        [assistant_message [0], assistant_message [0]] wire_store) 0)
       = JDict [(''a'', JInt 1)]"
  by (simp add: call_refs_def assistant_calls_def assistant_message_def py_json_loads_def
      example_loads_def wire_store_def)

section \<open>Proofs: the template structure analyzer\<close>

lemma find_all_visit: "find_all node_type n = concat (map (visit node_type) (iter_child_nodes n))"
  by (subst find_all.simps) (simp add: visit_def [abs_def])

lemma mutual_assigns:
  "find_all is_Assign mutual_template =
     [Assign (Name ''a'' ''store'') (Name ''messages'' ''load''),
      Assign (Name ''messages'' ''store'') (Name ''a'' ''load'')]"
  by (simp add: mutual_template_def find_all_visit visit_def)


lemma scan_mutual_messages:
  "scan_assigns (find_all is_Assign mutual_template) ''messages'' =
     Gen [(Assign (Name ''a'' ''store'') (Name ''messages'' ''load''), ''a'')] None"
  by (simp add: mutual_assigns is_plain_access_def is_var_access_def)

lemma scan_mutual_a:
  "scan_assigns (find_all is_Assign mutual_template) ''a'' =
     Gen [(Assign (Name ''messages'' ''store'') (Name ''a'' ''load''), ''messages'')] None"
  by (simp add: mutual_assigns is_plain_access_def is_var_access_def)


lemma bfs_mutual_never_returns:
  assumes "bfs root q yielded = Some g"
  shows "root = mutual_template \<longrightarrow> q = [''messages''] \<or> q = [''a''] \<longrightarrow> False"
proof (rule bfs.raw_induct
    [where P = "\<lambda>root q yielded g. root = mutual_template \<longrightarrow> q = [''messages''] \<or> q = [''a''] \<longrightarrow> False",
     OF _ assms], goal_cases)
  case (1 f root q yielded g)
  note IH = 1(1) and eq = 1(2)
  show ?case
  proof (intro impI)
    assume r: "root = mutual_template" and q: "q = [''messages''] \<or> q = [''a'']"
    from q show False
    proof
      assume "q = [''messages'']"
      with eq r have "f mutual_template [''a'']
          (yielded @ [(Assign (Name ''a'' ''store'') (Name ''messages'' ''load''), ''a'')]) = Some g"
        by (simp add: scan_mutual_messages)
      from IH [OF this] show False by simp
    next
      assume "q = [''a'']"
      with eq r have "f mutual_template [''messages'']
          (yielded @ [(Assign (Name ''messages'' ''store'') (Name ''a'' ''load''), ''messages'')]) = Some g"
        by (simp add: scan_mutual_a)
      from IH [OF this] show False by simp
    qed
  qed
qed

lemma mutual_bfs_none: "iter_nodes_assign_var_or_elems mutual_template ''messages'' = None"
proof (cases "iter_nodes_assign_var_or_elems mutual_template ''messages''")
  case None
  then show ?thesis .
next
  case (Some g)
  then have "bfs mutual_template [''messages''] [(mutual_template, ''messages'')] = Some g"
    by (simp add: iter_nodes_assign_var_or_elems_def)
  from bfs_mutual_never_returns [OF this] show ?thesis by simp
qed

lemma mutual_detect:
  "detect_content_format (\<lambda>t. Some mutual_template) t dflt = None"
  by (simp add: detect_content_format_def iter_nodes_assign_content_item_def
      iter_nodes_assign_messages_item_def mutual_bfs_none)

text \<open>
  Claim C8 fails on the code. The guard \<open>lhs.name != related_varname\<close> stops a name
  assigned to itself from being queued again, but not two names assigned to each other:
  on \<^verbatim>\<open>{% set a = messages %}{% set messages = a %}\<close> the queue is
  \<open>[messages]\<close>, \<open>[a]\<close>, \<open>[messages]\<close>, ... for ever, so the alias pass, and with
  it \<open>_detect_content_format\<close>, never returns.
\<close>

theorem mutual_assignment_never_returns:
  "iter_nodes_assign_var_or_elems mutual_template ''messages'' = None
   \<and> detect_content_format (\<lambda>t. Some mutual_template) chat_template dflt = None"
  using mutual_bfs_none mutual_detect by simp

subsection \<open>The alias pass and the classification\<close>

lemma is_Name_iff: "is_Name n \<longleftrightarrow> (\<exists>name ctx. n = Name name ctx)"
  by (cases n) simp_all

lemma access_accessed_var:
  "is_var_or_elems_access n v None \<longleftrightarrow> accessed_var n = Some v"
  by (induction n v "None :: string option" rule: is_var_or_elems_access.induct)
     (auto simp add: is_plain_access_def is_var_access_def)

lemma access_unique:
  "is_var_or_elems_access n v None \<Longrightarrow> is_var_or_elems_access n w None \<Longrightarrow> v = w"
  by (simp add: access_accessed_var)

lemma finite_alias_step: "finite (alias_step root)"
proof -
  let ?f = "\<lambda>a. case a of Assign (Name n ctx) rhs \<Rightarrow> (the (accessed_var rhs), n) | _ \<Rightarrow> ([], [])"
  have "alias_step root \<subseteq> ?f ` set (find_all is_Assign root)"
  proof
    fix p assume "p \<in> alias_step root"
    then obtain v n ctx rhs where p: "p = (v, n)"
      and a: "Assign (Name n ctx) rhs \<in> set (find_all is_Assign root)"
      and acc: "is_var_or_elems_access rhs v None"
      by (auto simp add: alias_step_def)
    from acc have "?f (Assign (Name n ctx) rhs) = (v, n)" by (simp add: access_accessed_var)
    with a p show "p \<in> ?f ` set (find_all is_Assign root)" by force
  qed
  then show ?thesis by (rule finite_subset) simp
qed

lemma finite_alias_edges: "finite (alias_edges root)"
  by (rule finite_subset [OF _ finite_alias_step [of root]]) (auto simp add: alias_edges_def)

lemma scan_assigns_yields:
  "scan_assigns as v = Gen ys e \<Longrightarrow> (a, n) \<in> set ys \<Longrightarrow>
   \<exists>ctx rhs. Assign (Name n ctx) rhs \<in> set as \<and> is_var_or_elems_access rhs v None"
proof (induction as arbitrary: ys e)
  case Nil
  then show ?case by simp
next
  case (Cons x as)
  show ?case
  proof (cases "\<exists>lhs rhs. x = Assign lhs rhs \<and> is_var_or_elems_access rhs v None")
    case False
    then have "scan_assigns (x # as) v = scan_assigns as v" by (cases x) auto
    with Cons.prems Cons.IH [of ys e] show ?thesis by auto
  next
    case True
    then obtain lhs rhs where x: "x = Assign lhs rhs" and acc: "is_var_or_elems_access rhs v None"
      by blast
    show ?thesis
    proof (cases "is_Name lhs")
      case False
      with x acc have "scan_assigns (x # as) v = Gen [] (Some AssertionError)"
        by (cases lhs) simp_all
      with Cons.prems show ?thesis by simp
    next
      case True
      then obtain name ctx where lhs: "lhs = Name name ctx" by (auto simp add: is_Name_iff)
      obtain ys1 e1 where r: "scan_assigns as v = Gen ys1 e1" by (cases "scan_assigns as v")
      with Cons.prems(1) x acc lhs have ys: "ys = (x, name) # ys1" by simp
      show ?thesis
      proof (cases "(a, n) \<in> set ys1")
        case True
        from Cons.IH [OF r True] show ?thesis by auto
      next
        case False
        with Cons.prems(2) ys have "n = name" by simp
        with x lhs acc show ?thesis by auto
      qed
    qed
  qed
qed

lemma scan_assigns_complete:
  assumes "\<forall>lhs rhs. Assign lhs rhs \<in> set as \<and> is_var_or_elems_access rhs v None \<longrightarrow> is_Name lhs"
  shows "\<exists>ys. scan_assigns as v = Gen ys None
           \<and> (\<forall>n ctx rhs. Assign (Name n ctx) rhs \<in> set as \<and> is_var_or_elems_access rhs v None
                 \<longrightarrow> n \<in> snd ` set ys)"
  using assms
proof (induction as)
  case Nil
  then show ?case by simp
next
  case (Cons x as)
  then obtain ys1 where r: "scan_assigns as v = Gen ys1 None"
    and c: "\<forall>n ctx rhs. Assign (Name n ctx) rhs \<in> set as \<and> is_var_or_elems_access rhs v None
                 \<longrightarrow> n \<in> snd ` set ys1"
    by auto
  show ?case
  proof (cases "\<exists>lhs rhs. x = Assign lhs rhs \<and> is_var_or_elems_access rhs v None")
    case False
    then have "scan_assigns (x # as) v = scan_assigns as v" by (cases x) auto
    with r c False show ?thesis by auto
  next
    case True
    then obtain lhs rhs where x: "x = Assign lhs rhs" and acc: "is_var_or_elems_access rhs v None"
      by blast
    with Cons.prems have "is_Name lhs" by auto
    then obtain name ctx where lhs: "lhs = Name name ctx" by (auto simp add: is_Name_iff)
    with x acc r have "scan_assigns (x # as) v = Gen ((x, name) # ys1) None" by simp
    moreover have "\<forall>n ctx rhs. Assign (Name n ctx) rhs \<in> set (x # as) \<and> is_var_or_elems_access rhs v None
                 \<longrightarrow> n \<in> snd ` set ((x, name) # ys1)"
      using c x lhs by auto
    ultimately show ?thesis by blast
  qed
qed


lemma aliases_of_self: "v \<in> aliases_of root v"
  by (simp add: aliases_of_def)

lemma aliases_of_step: "v \<in> aliases_of root m \<Longrightarrow> (v, n) \<in> alias_step root \<Longrightarrow> n \<in> aliases_of root m"
  by (auto simp add: aliases_of_def intro: rtrancl_into_rtrancl)

lemma scan_root_step:
  assumes "scan_assigns (find_all is_Assign root) v = Gen ys e" "(a, n) \<in> set ys"
  shows "(v, n) \<in> alias_step root"
  using scan_assigns_yields [OF assms] by (auto simp add: alias_step_def)

lemma bfs_terminates:
  assumes wf: "wf ((alias_edges root)\<inverse>)"
  shows "set q \<subseteq> aliases_of root ''messages'' \<Longrightarrow> \<exists>g. bfs root q acc = Some g"
proof (induction "mset q" arbitrary: q acc rule: wf_induct_rule [OF wf_mult [OF wf]])
  case 1
  show ?case
  proof (cases q)
    case Nil
    then show ?thesis by (subst bfs.simps) simp
  next
    case (Cons v rest)
    obtain ys e where sc: "scan_assigns (find_all is_Assign root) v = Gen ys e"
      by (cases "scan_assigns (find_all is_Assign root) v")
    show ?thesis
    proof (cases e)
      case (Some err)
      with Cons sc show ?thesis by (subst bfs.simps) simp
    next
      case None
      let ?new = "filter (\<lambda>name. name \<noteq> v) (map snd ys)"
      let ?q = "rest @ ?new"
      from 1(2) Cons have v: "v \<in> aliases_of root ''messages''" by simp
      have new_step: "\<And>k. k \<in> set ?new \<Longrightarrow> (v, k) \<in> alias_step root \<and> k \<noteq> v"
        using scan_root_step [OF sc] by auto
      have "\<forall>k \<in> set_mset (mset ?new). \<exists>j \<in> set_mset {#v#}. (k, j) \<in> (alias_edges root)\<inverse>"
        using new_step v by (auto simp add: alias_edges_def)
      then have "(mset rest + mset ?new, mset rest + {#v#}) \<in> mult ((alias_edges root)\<inverse>)"
        by (intro one_step_implies_mult) simp_all
      then have less: "(mset ?q, mset q) \<in> mult ((alias_edges root)\<inverse>)"
        using Cons by simp
      have sub: "set ?q \<subseteq> aliases_of root ''messages''"
        using 1(2) Cons new_step v by (auto intro: aliases_of_step)
      from 1(1) [OF less sub, of "acc @ ys"] obtain g where "bfs root ?q (acc @ ys) = Some g" ..
      with Cons sc None show ?thesis by (subst bfs.simps) simp
    qed
  qed
qed

lemma scan_assigns_error:
  "scan_assigns as v = Gen ys (Some err) \<Longrightarrow>
   err = AssertionError
   \<and> (\<exists>lhs rhs. Assign lhs rhs \<in> set as \<and> is_var_or_elems_access rhs v None \<and> \<not> is_Name lhs)"
proof (induction as arbitrary: ys)
  case Nil
  then show ?case by simp
next
  case (Cons x as)
  show ?case
  proof (cases "\<exists>lhs rhs. x = Assign lhs rhs \<and> is_var_or_elems_access rhs v None")
    case False
    then have "scan_assigns (x # as) v = scan_assigns as v" by (cases x) auto
    with Cons.prems Cons.IH [of ys] show ?thesis by auto
  next
    case True
    then obtain lhs rhs where x: "x = Assign lhs rhs" and acc: "is_var_or_elems_access rhs v None"
      by blast
    show ?thesis
    proof (cases "is_Name lhs")
      case False
      with x acc have "scan_assigns (x # as) v = Gen [] (Some AssertionError)"
        by (cases lhs) simp_all
      with Cons.prems x acc False show ?thesis by auto
    next
      case True
      then obtain name ctx where lhs: "lhs = Name name ctx" by (auto simp add: is_Name_iff)
      obtain ys1 e1 where r: "scan_assigns as v = Gen ys1 e1" by (cases "scan_assigns as v")
      with Cons.prems x acc lhs have "e1 = Some err" by simp
      with r Cons.IH [of ys1] show ?thesis by auto
    qed
  qed
qed

lemma scan_assigns_ok:
  "scan_assigns as v = Gen ys None \<Longrightarrow> Assign lhs rhs \<in> set as \<Longrightarrow>
   is_var_or_elems_access rhs v None \<Longrightarrow> is_Name lhs"
proof (induction as arbitrary: ys)
  case Nil
  then show ?case by simp
next
  case (Cons x as)
  show ?case
  proof (cases "\<exists>l r. x = Assign l r \<and> is_var_or_elems_access r v None")
    case False
    then have "scan_assigns (x # as) v = scan_assigns as v" by (cases x) auto
    with Cons.prems Cons.IH [of ys] False show ?thesis by auto
  next
    case True
    then obtain l r where x: "x = Assign l r" and acc: "is_var_or_elems_access r v None"
      by blast
    show ?thesis
    proof (cases "is_Name l")
      case False
      with x acc have "scan_assigns (x # as) v = Gen [] (Some AssertionError)"
        by (cases l) simp_all
      with Cons.prems show ?thesis by simp
    next
      case True
      then obtain name ctx where l: "l = Name name ctx" by (auto simp add: is_Name_iff)
      obtain ys1 e1 where r: "scan_assigns as v = Gen ys1 e1" by (cases "scan_assigns as v")
      with Cons.prems(1) x acc l have "e1 = None" by simp
      with r Cons.IH [of ys1] Cons.prems(2,3) x True show ?thesis by auto
    qed
  qed
qed

lemma scan_root_complete:
  assumes "scan_assigns (find_all is_Assign root) v = Gen ys None"
  shows "alias_step root `` {v} \<subseteq> snd ` set ys"
proof -
  have "\<forall>lhs rhs. Assign lhs rhs \<in> set (find_all is_Assign root)
          \<and> is_var_or_elems_access rhs v None \<longrightarrow> is_Name lhs"
    using scan_assigns_ok [OF assms] by blast
  from scan_assigns_complete [OF this] assms
  have "\<forall>n ctx rhs. Assign (Name n ctx) rhs \<in> set (find_all is_Assign root)
              \<and> is_var_or_elems_access rhs v None \<longrightarrow> n \<in> snd ` set ys"
    by auto
  then show ?thesis by (auto simp add: alias_step_def)
qed

lemma bfs_error:
  assumes "bfs root q acc = Some g"
  shows "set q \<subseteq> aliases_of root ''messages'' \<longrightarrow>
         (\<forall>res err. g = Gen res (Some err) \<longrightarrow> err = AssertionError \<and> \<not> assigns_plain root)"
proof (rule bfs.raw_induct
    [where P = "\<lambda>root q acc g. set q \<subseteq> aliases_of root ''messages'' \<longrightarrow>
         (\<forall>res err. g = Gen res (Some err) \<longrightarrow> err = AssertionError \<and> \<not> assigns_plain root)",
     OF _ assms], goal_cases)
  case (1 f root q acc g)
  note IH = 1(1) and eq = 1(2)
  show ?case
  proof (intro impI allI)
    fix res err
    assume sub: "set q \<subseteq> aliases_of root ''messages''" and g: "g = Gen res (Some err)"
    show "err = AssertionError \<and> \<not> assigns_plain root"
    proof (cases q)
      case Nil
      with eq g show ?thesis by simp
    next
      case (Cons v rest)
      with sub have v: "v \<in> aliases_of root ''messages''" by simp
      obtain ys e where sc: "scan_assigns (find_all is_Assign root) v = Gen ys e"
        by (cases "scan_assigns (find_all is_Assign root) v")
      show ?thesis
      proof (cases e)
        case (Some e')
        with eq Cons sc g have "e' = err" by simp
        with sc Some scan_assigns_error [of "find_all is_Assign root" v ys err]
        obtain lhs rhs where "err = AssertionError"
          and "Assign lhs rhs \<in> set (find_all is_Assign root)"
          and "is_var_or_elems_access rhs v None" and "\<not> is_Name lhs"
          by blast
        with v show ?thesis by (auto simp add: assigns_plain_def)
      next
        case None
        let ?q = "rest @ filter (\<lambda>name. name \<noteq> v) (map snd ys)"
        have "\<And>n. n \<in> snd ` set ys \<Longrightarrow> (v, n) \<in> alias_step root"
          using scan_root_step [OF sc] by auto
        then have "snd ` set ys \<subseteq> aliases_of root ''messages''"
          using v by (auto intro: aliases_of_step)
        with sub Cons have sub': "set ?q \<subseteq> aliases_of root ''messages''" by auto
        from eq Cons sc None have "f root ?q (acc @ ys) = Some g" by simp
        from IH [OF this] sub' g show ?thesis by blast
      qed
    qed
  qed
qed

lemma bfs_result:
  assumes "bfs root q acc = Some g"
  shows "set q \<subseteq> aliases_of root ''messages'' \<longrightarrow>
         (\<forall>res. g = Gen res None \<longrightarrow>
            snd ` set acc \<subseteq> snd ` set res
            \<and> snd ` set res \<subseteq> snd ` set acc \<union> aliases_of root ''messages''
            \<and> (\<forall>x \<in> set q \<union> (snd ` set res - snd ` set acc).
                  alias_step root `` {x} \<subseteq> snd ` set res
                  \<and> (\<forall>lhs rhs. Assign lhs rhs \<in> set (find_all is_Assign root)
                        \<and> is_var_or_elems_access rhs x None \<longrightarrow> is_Name lhs)))"
proof (rule bfs.raw_induct
    [where P = "\<lambda>root q acc g. set q \<subseteq> aliases_of root ''messages'' \<longrightarrow>
         (\<forall>res. g = Gen res None \<longrightarrow>
            snd ` set acc \<subseteq> snd ` set res
            \<and> snd ` set res \<subseteq> snd ` set acc \<union> aliases_of root ''messages''
            \<and> (\<forall>x \<in> set q \<union> (snd ` set res - snd ` set acc).
                  alias_step root `` {x} \<subseteq> snd ` set res
                  \<and> (\<forall>lhs rhs. Assign lhs rhs \<in> set (find_all is_Assign root)
                        \<and> is_var_or_elems_access rhs x None \<longrightarrow> is_Name lhs)))",
     OF _ assms], goal_cases)
  case (1 f root q acc g)
  note IH = 1(1) and eq = 1(2)
  let ?ok = "\<lambda>x. \<forall>lhs rhs. Assign lhs rhs \<in> set (find_all is_Assign root)
                        \<and> is_var_or_elems_access rhs x None \<longrightarrow> is_Name lhs"
  show ?case
  proof (intro impI allI)
    fix res
    assume sub: "set q \<subseteq> aliases_of root ''messages''" and g: "g = Gen res None"
    show "snd ` set acc \<subseteq> snd ` set res
            \<and> snd ` set res \<subseteq> snd ` set acc \<union> aliases_of root ''messages''
            \<and> (\<forall>x \<in> set q \<union> (snd ` set res - snd ` set acc).
                  alias_step root `` {x} \<subseteq> snd ` set res \<and> ?ok x)"
    proof (cases q)
      case Nil
      with eq g have "res = acc" by simp
      with Nil show ?thesis by auto
    next
      case (Cons v rest)
      with sub have v: "v \<in> aliases_of root ''messages''" by simp
      obtain ys e where sc0: "scan_assigns (find_all is_Assign root) v = Gen ys e"
        by (cases "scan_assigns (find_all is_Assign root) v")
      have "e = None"
      proof (cases e)
        case (Some e')
        with eq Cons sc0 g show ?thesis by simp
      qed
      with sc0 have sc: "scan_assigns (find_all is_Assign root) v = Gen ys None" by simp
      have comp: "alias_step root `` {v} \<subseteq> snd ` set ys" by (rule scan_root_complete [OF sc])
      have okv: "?ok v" using scan_assigns_ok [OF sc] by blast
      let ?new = "filter (\<lambda>name. name \<noteq> v) (map snd ys)"
      let ?q = "rest @ ?new"
      have ys_step: "\<And>n. n \<in> snd ` set ys \<Longrightarrow> (v, n) \<in> alias_step root"
        using scan_root_step [OF sc] by auto
      then have ys_alias: "snd ` set ys \<subseteq> aliases_of root ''messages''"
        using v by (auto intro: aliases_of_step)
      from eq Cons sc have call: "f root ?q (acc @ ys) = Some g" by simp
      have sub': "set ?q \<subseteq> aliases_of root ''messages''"
        using sub Cons ys_alias by auto
      note J = IH [OF call, rule_format, OF sub' g]
      note pre = J [THEN conjunct1] and snd = J [THEN conjunct2, THEN conjunct1]
        and cl = J [THEN conjunct2, THEN conjunct2]
      have un: "snd ` set (acc @ ys) = snd ` set acc \<union> snd ` set ys"
        by (simp add: image_Un)
      have a: "snd ` set acc \<subseteq> snd ` set res" using pre unfolding un by blast
      have b: "snd ` set res \<subseteq> snd ` set acc \<union> aliases_of root ''messages''"
        using snd ys_alias unfolding un by blast
      have c: "\<forall>x \<in> set q \<union> (snd ` set res - snd ` set acc).
                 alias_step root `` {x} \<subseteq> snd ` set res \<and> ?ok x"
      proof
        fix x assume x: "x \<in> set q \<union> (snd ` set res - snd ` set acc)"
        show "alias_step root `` {x} \<subseteq> snd ` set res \<and> ?ok x"
        proof (cases "x = v")
          case True
          have "alias_step root `` {v} \<subseteq> snd ` set res" using comp pre unfolding un by blast
          then show ?thesis unfolding True using okv by (rule conjI)
        next
          case False
          have "set ?q = set rest \<union> (snd ` set ys - {v})" by auto
          with False x Cons have "x \<in> set ?q \<union> (snd ` set res - snd ` set (acc @ ys))"
            unfolding un by auto
          then show ?thesis by (rule bspec [OF cl])
        qed
      qed
      show ?thesis by (rule conjI [OF a conjI [OF b c]])
    qed
  qed
qed

lemma closed_contains_aliases:
  assumes "m \<in> X" and "\<forall>x \<in> X. alias_step root `` {x} \<subseteq> X"
  shows "aliases_of root m \<subseteq> X"
proof
  fix n assume "n \<in> aliases_of root m"
  then have "(m, n) \<in> (alias_step root)\<^sup>*" by (simp add: aliases_of_def)
  then show "n \<in> X"
    by (induction rule: rtrancl_induct) (use assms in auto)
qed

lemma stage1:
  assumes ac: "acyclic (alias_edges root)"
  shows "\<exists>ys. iter_nodes_assign_var_or_elems root ''messages'' =
                 Some (Gen ys (if assigns_plain root then None else Some AssertionError))
           \<and> (assigns_plain root \<longrightarrow> snd ` set ys = aliases_of root ''messages'')"
proof -
  have wf: "wf ((alias_edges root)\<inverse>)"
    using finite_alias_edges ac by (rule finite_acyclic_wf_converse)
  have sub: "set [''messages''] \<subseteq> aliases_of root ''messages''"
    by (simp add: aliases_of_self)
  from bfs_terminates [OF wf sub] obtain g where
    g: "bfs root [''messages''] [(root, ''messages'')] = Some g" by blast
  obtain res e where ge: "g = Gen res e" by (cases g)
  show ?thesis
  proof (cases e)
    case (Some err)
    with bfs_error [OF g] sub ge have "err = AssertionError" and "\<not> assigns_plain root"
      by blast+
    with g ge Some show ?thesis by (simp add: iter_nodes_assign_var_or_elems_def)
  next
    case None
    let ?ok = "\<lambda>x. \<forall>lhs rhs. Assign lhs rhs \<in> set (find_all is_Assign root)
                        \<and> is_var_or_elems_access rhs x None \<longrightarrow> is_Name lhs"
    from ge None have gn: "g = Gen res None" by simp
    note J = bfs_result [OF g, rule_format, OF sub gn]
    note a = J [THEN conjunct1] and b = J [THEN conjunct2, THEN conjunct1]
      and c = J [THEN conjunct2, THEN conjunct2]
    from a have m: "''messages'' \<in> snd ` set res" by simp
    have all: "alias_step root `` {x} \<subseteq> snd ` set res \<and> ?ok x" if "x \<in> snd ` set res" for x
    proof -
      from that have "x \<in> set [''messages''] \<union> (snd ` set res - snd ` set [(root, ''messages'')])"
        by auto
      then show ?thesis by (rule bspec [OF c])
    qed
    have "\<forall>x \<in> snd ` set res. alias_step root `` {x} \<subseteq> snd ` set res"
      using all [THEN conjunct1] by blast
    from closed_contains_aliases [OF m this]
    have "aliases_of root ''messages'' \<subseteq> snd ` set res" .
    moreover from b have "snd ` set res \<subseteq> aliases_of root ''messages''"
      by (auto simp add: aliases_of_self)
    ultimately have eq: "snd ` set res = aliases_of root ''messages''" by blast
    have "assigns_plain root" unfolding assigns_plain_def
    proof (intro allI impI, elim conjE bexE)
      fix lhs rhs v
      assume m: "Assign lhs rhs \<in> set (find_all is_Assign root)"
        and v: "v \<in> aliases_of root ''messages''"
        and acc: "is_var_or_elems_access rhs v None"
      from v have "v \<in> snd ` set res" unfolding eq .
      from all [OF this, THEN conjunct2, rule_format, OF conjI [OF m acc]]
      show "is_Name lhs" .
    qed
    with g ge None eq show ?thesis by (simp add: iter_nodes_assign_var_or_elems_def)
  qed
qed


lemma scan_loops_Cons:
  "scan_loops (x # ls) vs key =
     (if loop_over (set vs) key x
      then (case loop_name x of
              Some name \<Rightarrow> (case scan_loops ls vs key of Gen ys e \<Rightarrow> Gen ((x, name) # ys) e)
            | None \<Rightarrow> Gen [] (Some AssertionError))
      else scan_loops ls vs key)"
proof (cases x)
  case (For t it b e ts r)
  show ?thesis unfolding For
    by (cases t; cases "scan_loops ls vs key") (simp_all add: loop_over_def list_ex_iff)
qed (simp_all add: loop_over_def)

lemma scan_loops_plain:
  assumes "\<forall>l \<in> set ls. loop_over (set vs) key l \<longrightarrow> loop_name l \<noteq> None"
  shows "scan_loops ls vs key =
           Gen (map (\<lambda>l. (l, the (loop_name l))) (filter (loop_over (set vs) key) ls)) None"
  using assms
proof (induction ls)
  case Nil
  then show ?case by simp
next
  case (Cons x ls)
  then have IH: "scan_loops ls vs key =
           Gen (map (\<lambda>l. (l, the (loop_name l))) (filter (loop_over (set vs) key) ls)) None"
    by simp
  show ?case
  proof (cases "loop_over (set vs) key x")
    case False
    with IH show ?thesis by (simp add: scan_loops_Cons)
  next
    case True
    with Cons.prems obtain name where "loop_name x = Some name" by auto
    with True IH show ?thesis by (simp add: scan_loops_Cons)
  qed
qed

lemma scan_loops_error:
  assumes "\<exists>l \<in> set ls. loop_over (set vs) key l \<and> loop_name l = None"
  shows "\<exists>ys. scan_loops ls vs key = Gen ys (Some AssertionError)"
  using assms
proof (induction ls)
  case Nil
  then show ?case by simp
next
  case (Cons x ls)
  show ?case
  proof (cases "loop_over (set vs) key x")
    case False
    with Cons show ?thesis by (auto simp add: scan_loops_Cons)
  next
    case True
    show ?thesis
    proof (cases "loop_name x")
      case None
      with True show ?thesis by (simp add: scan_loops_Cons)
    next
      case (Some name)
      with Cons.prems have "\<exists>l \<in> set ls. loop_over (set vs) key l \<and> loop_name l = None" by auto
      from Cons.IH [OF this] obtain ys where "scan_loops ls vs key = Gen ys (Some AssertionError)" ..
      with True Some show ?thesis by (simp add: scan_loops_Cons)
    qed
  qed
qed

lemma scan_loops_next:
  "next_of (scan_loops ls vs key) =
     (case find (loop_over (set vs) key) ls of
        None \<Rightarrow> Inl StopIteration
      | Some l \<Rightarrow> (case loop_name l of Some name \<Rightarrow> Inr (l, name) | None \<Rightarrow> Inl AssertionError))"
proof (induction ls)
  case Nil
  then show ?case by simp
next
  case (Cons x ls)
  show ?case
  proof (cases "loop_over (set vs) key x")
    case False
    with Cons show ?thesis by (simp add: scan_loops_Cons)
  next
    case True
    then show ?thesis
      by (cases "loop_name x"; cases "scan_loops ls vs key") (simp_all add: scan_loops_Cons)
  qed
qed

lemma stage2:
  assumes ac: "acyclic (alias_edges root)"
  shows "\<exists>ys. iter_nodes_assign_messages_item root =
                 Some (Gen ys (if assigns_plain root \<and> message_loops_plain root
                               then None else Some AssertionError))
           \<and> (assigns_plain root \<and> message_loops_plain root \<longrightarrow>
                set (map snd ys) = message_vars root)"
proof -
  let ?loops = "find_all is_For root"
  from stage1 [OF ac] obtain ys1 where
    s1: "iter_nodes_assign_var_or_elems root ''messages'' =
           Some (Gen ys1 (if assigns_plain root then None else Some AssertionError))"
    and a1: "assigns_plain root \<longrightarrow> snd ` set ys1 = aliases_of root ''messages''"
    by blast
  show ?thesis
  proof (cases "assigns_plain root")
    case False
    with s1 show ?thesis by (simp add: iter_nodes_assign_messages_item_def)
  next
    case True
    with a1 have set1: "set (map snd ys1) = aliases_of root ''messages''" by simp
    from True s1 have it: "iter_nodes_assign_messages_item root =
        Some (scan_loops ?loops (map snd ys1) None)"
      by (simp add: iter_nodes_assign_messages_item_def)
    show ?thesis
    proof (cases "message_loops_plain root")
      case False
      then have "\<exists>l \<in> set ?loops. loop_over (set (map snd ys1)) None l \<and> loop_name l = None"
        unfolding set1 message_loops_plain_def by simp
      from scan_loops_error [OF this] obtain ys where
        "scan_loops ?loops (map snd ys1) None = Gen ys (Some AssertionError)" ..
      with it False show ?thesis by simp
    next
      case mp: True
      then have lp: "\<forall>l \<in> set ?loops.
          loop_over (aliases_of root ''messages'') None l \<longrightarrow> loop_name l \<noteq> None"
        by (simp add: message_loops_plain_def)
      define ys2 where "ys2 = map (\<lambda>l. (l, the (loop_name l)))
          (filter (loop_over (aliases_of root ''messages'') None) ?loops)"
      have "\<forall>l \<in> set ?loops. loop_over (set (map snd ys1)) None l \<longrightarrow> loop_name l \<noteq> None"
        using lp unfolding set1 by blast
      from scan_loops_plain [OF this]
      have s2: "scan_loops ?loops (map snd ys1) None = Gen ys2 None"
        unfolding set1 ys2_def .
      have set2: "set (map snd ys2) = message_vars root"
      proof
        show "set (map snd ys2) \<subseteq> message_vars root"
          using lp by (force simp add: ys2_def message_vars_def)
        show "message_vars root \<subseteq> set (map snd ys2)"
          by (force simp add: ys2_def message_vars_def)
      qed
      from it s2 set2 True mp show ?thesis by simp
    qed
  qed
qed

lemma first_content_loop_mem:
  "first_content_loop root = Some l \<Longrightarrow> l \<in> set (find_all is_For root)"
  unfolding first_content_loop_def by (metis find_Some_iff nth_mem)

lemma named_loops_no_raise:
  assumes "assigns_plain root" and "\<forall>l \<in> set (find_all is_For root). loop_name l \<noteq> None"
  shows "\<not> analysis_raises root"
proof -
  from assms(2) have "message_loops_plain root" by (simp add: message_loops_plain_def)
  moreover have "\<not> (\<exists>l. first_content_loop root = Some l \<and> loop_name l = None)"
    using first_content_loop_mem assms(2) by blast
  ultimately show ?thesis using assms(1) by (simp add: analysis_raises_def)
qed

lemma has_content_loop_first:
  "has_content_loop root \<longleftrightarrow> first_content_loop root \<noteq> None"
  by (auto simp add: has_content_loop_def first_content_loop_def find_None_iff)

lemma detect_on_tree:
  assumes ast: "try_extract_ast chat_template = Some root"
    and ac: "acyclic (alias_edges root)"
  shows "detect_content_format try_extract_ast chat_template dflt =
           Some (if analysis_raises root then dflt
                 else if has_content_loop root then FormatOpenAI else FormatString)"
proof -
  let ?loops = "find_all is_For root"
  from stage2 [OF ac] obtain ys2 where
    s2: "iter_nodes_assign_messages_item root =
           Some (Gen ys2 (if assigns_plain root \<and> message_loops_plain root
                          then None else Some AssertionError))"
    and a2: "assigns_plain root \<and> message_loops_plain root \<longrightarrow>
               set (map snd ys2) = message_vars root"
    by blast
  show ?thesis
  proof (cases "assigns_plain root \<and> message_loops_plain root")
    case False
    with s2 have "iter_nodes_assign_content_item root = Some (Gen [] (Some AssertionError))"
      by (simp add: iter_nodes_assign_content_item_def)
    moreover from False have "analysis_raises root" by (auto simp add: analysis_raises_def)
    ultimately show ?thesis using ast by (simp add: detect_content_format_def)
  next
    case True
    with a2 have set2: "set (map snd ys2) = message_vars root" by simp
    from True s2 have it: "iter_nodes_assign_content_item root =
        Some (scan_loops ?loops (map snd ys2) (Some ''content''))"
      by (simp add: iter_nodes_assign_content_item_def)
    have nx: "next_of (scan_loops ?loops (map snd ys2) (Some ''content'')) =
        (case first_content_loop root of
           None \<Rightarrow> Inl StopIteration
         | Some l \<Rightarrow> (case loop_name l of Some name \<Rightarrow> Inr (l, name) | None \<Rightarrow> Inl AssertionError))"
      unfolding scan_loops_next set2 first_content_loop_def ..
    show ?thesis
    proof (cases "first_content_loop root")
      case None
      with True have "\<not> analysis_raises root" by (simp add: analysis_raises_def)
      moreover from None have "\<not> has_content_loop root" by (simp add: has_content_loop_first)
      ultimately show ?thesis using ast it nx None by (simp add: detect_content_format_def)
    next
      case (Some l)
      then have h: "has_content_loop root" by (simp add: has_content_loop_first)
      show ?thesis
      proof (cases "loop_name l")
        case None
        with Some have "analysis_raises root" by (simp add: analysis_raises_def)
        with ast it nx Some None show ?thesis by (simp add: detect_content_format_def)
      next
        case (Some name)
        with \<open>first_content_loop root = Some l\<close> True have "\<not> analysis_raises root"
          by (simp add: analysis_raises_def)
        with ast it nx \<open>first_content_loop root = Some l\<close> Some h show ?thesis
          by (simp add: detect_content_format_def)
      qed
    qed
  qed
qed

lemma detect_no_tree:
  "try_extract_ast chat_template = None \<Longrightarrow>
   detect_content_format try_extract_ast chat_template dflt = Some dflt"
  by (simp add: detect_content_format_def)

text \<open>
  Claim C1, as amended. When no tree can be obtained, \<open>_detect_content_format\<close> returns
  the caller's default. When a tree is obtained in which no alias of \<open>messages\<close> is
  assigned from itself through other names (so that the alias pass ends) and in which
  every assignment from an alias of \<open>messages\<close>, every loop over an alias of
  \<open>messages\<close> and the first content loop bind a plain name (so that no \<open>assert\<close>
  fails), the result is \<open>openai\<close> if the tree contains a content loop, and \<open>string\<close>
  if it contains none. A content loop is a loop whose iterated expression is itself an
  access to the key \<open>content\<close> of a message variable, and a message variable is the
  target of a loop over an access to an alias of \<open>messages\<close>: names assigned from a
  message variable or from its content are not followed.
\<close>

theorem detect_content_format_classifies:
  "(try_extract_ast chat_template = None \<longrightarrow>
      detect_content_format try_extract_ast chat_template dflt = Some dflt)
   \<and> (try_extract_ast chat_template = Some root \<and> acyclic (alias_edges root)
        \<and> \<not> analysis_raises root \<longrightarrow>
        detect_content_format try_extract_ast chat_template dflt =
          Some (if has_content_loop root then FormatOpenAI else FormatString))"
  using detect_no_tree [of try_extract_ast chat_template dflt]
    detect_on_tree [of try_extract_ast chat_template root dflt]
  by auto

text \<open>
  The instances: a structured template with default \<open>string\<close>, a flat template with
  default \<open>openai\<close>, and a template that does not parse.
\<close>

lemma structured_assigns:
  "find_all is_Assign structured_template = [Assign (Name ''msgs'' ''store'') (Name ''messages'' ''load'')]"
  by (simp add: structured_template_def find_all_visit visit_def)

lemma structured_loops:
  "find_all is_For structured_template =
     [For (Name ''m'' ''store'') (Name ''msgs'' ''load'')
        [For (Name ''part'' ''store'') (Getitem (Name ''m'' ''load'') (Const (JStr ''content'')))
           [] [] None False]
        [] None False,
      For (Name ''part'' ''store'') (Getitem (Name ''m'' ''load'') (Const (JStr ''content'')))
        [] [] None False]"
  by (simp add: structured_template_def find_all_visit visit_def)

lemma structured_step: "alias_step structured_template = {(''messages'', ''msgs'')}"
  by (auto simp add: alias_step_def structured_assigns is_plain_access_def is_var_access_def)

lemma structured_acyclic: "acyclic (alias_edges structured_template)"
proof -
  have "alias_edges structured_template \<subseteq> {(''messages'', ''msgs'')}"
    by (auto simp add: alias_edges_def structured_step)
  moreover have "acyclic ({} :: (string \<times> string) set)"
    by (simp add: acyclic_def)
  then have "acyclic {(''messages'', ''msgs'')}"
    by (simp add: acyclic_insert)
  ultimately show ?thesis by (rule acyclic_subset [rotated])
qed

lemma structured_msgs: "''msgs'' \<in> aliases_of structured_template ''messages''"
  by (auto simp add: aliases_of_def structured_step)

lemma structured_m: "''m'' \<in> message_vars structured_template"
  using structured_msgs
  by (auto simp add: message_vars_def structured_loops loop_over_def is_plain_access_def
      is_var_access_def)

lemma structured_has_loop: "has_content_loop structured_template"
  using structured_m
  by (auto simp add: has_content_loop_def structured_loops loop_over_def is_plain_access_def
      is_attr_access_def is_var_access_def)

lemma structured_no_raise: "\<not> analysis_raises structured_template"
proof (rule named_loops_no_raise)
  show "assigns_plain structured_template"
    by (simp add: assigns_plain_def structured_assigns)
  show "\<forall>l \<in> set (find_all is_For structured_template). loop_name l \<noteq> None"
    by (simp add: structured_loops)
qed

lemma flat_loops:
  "find_all is_For flat_template =
     [For (Name ''m'' ''store'') (Name ''messages'' ''load'')
              [Other [Getattr (Name ''m'' ''load'') ''content'']]
              [] None False]"
  by (simp add: flat_template_def find_all_visit visit_def)

lemma flat_assigns: "find_all is_Assign flat_template = []"
  by (simp add: flat_template_def find_all_visit visit_def)

lemma flat_acyclic: "acyclic (alias_edges flat_template)"
proof -
  have "alias_edges flat_template = {}"
    by (auto simp add: alias_edges_def alias_step_def flat_assigns)
  then show ?thesis by (simp add: acyclic_def)
qed

lemma flat_no_raise: "\<not> analysis_raises flat_template"
proof (rule named_loops_no_raise)
  show "assigns_plain flat_template"
    by (simp add: assigns_plain_def flat_assigns)
  show "\<forall>l \<in> set (find_all is_For flat_template). loop_name l \<noteq> None"
    by (simp add: flat_loops)
qed

lemma flat_no_loop: "\<not> has_content_loop flat_template"
  by (simp add: has_content_loop_def flat_loops loop_over_def is_plain_access_def
      is_attr_access_def)

theorem detect_content_format_classifies_witness:
  "parses_to structured_template ''t1'' = Some structured_template
   \<and> acyclic (alias_edges structured_template) \<and> \<not> analysis_raises structured_template
   \<and> has_content_loop structured_template
   \<and> detect_content_format (parses_to structured_template) ''t1'' FormatString = Some FormatOpenAI
   \<and> parses_to flat_template ''t2'' = Some flat_template
   \<and> acyclic (alias_edges flat_template) \<and> \<not> analysis_raises flat_template
   \<and> \<not> has_content_loop flat_template
   \<and> detect_content_format (parses_to flat_template) ''t2'' FormatOpenAI = Some FormatString
   \<and> parse_fails ''t3'' = None
   \<and> detect_content_format parse_fails ''t3'' FormatOpenAI = Some FormatOpenAI"
  using detect_content_format_classifies
      [of "parses_to structured_template" "''t1''" FormatString structured_template]
    detect_content_format_classifies
      [of "parses_to flat_template" "''t2''" FormatOpenAI flat_template]
    detect_content_format_classifies
      [of parse_fails "''t3''" FormatOpenAI flat_template]
    structured_acyclic structured_no_raise structured_has_loop flat_acyclic flat_no_raise
    flat_no_loop
  by (simp add: parses_to_def parse_fails_def)

text \<open>
  Claim C1 as stated fails. The tree of
  \<^verbatim>\<open>{% for m in messages %}{% set c = m['content'] %}{% for p in c %}{% endfor %}{% endfor %}\<close>
  is obtained, every target in it is a plain name, and it contains a loop over an access
  to \<open>c\<close>, a content alias of the message variable \<open>m\<close>. Yet the result is \<open>string\<close>,
  also with default \<open>openai\<close>: \<open>_iter_nodes_assign_content_item\<close> resolves no aliases,
  it only looks for loops over \<open>m['content']\<close> itself.
\<close>

lemma content_alias_loops:
  "find_all is_For content_alias_template =
     [For (Name ''m'' ''store'') (Name ''messages'' ''load'')
        [Assign (Name ''c'' ''store'') (Getitem (Name ''m'' ''load'') (Const (JStr ''content''))),
         For (Name ''p'' ''store'') (Name ''c'' ''load'') [] [] None False]
        [] None False,
      For (Name ''p'' ''store'') (Name ''c'' ''load'') [] [] None False]"
  by (simp add: content_alias_template_def find_all_visit visit_def)

lemma content_alias_assigns:
  "find_all is_Assign content_alias_template =
     [Assign (Name ''c'' ''store'') (Getitem (Name ''m'' ''load'') (Const (JStr ''content'')))]"
  by (simp add: content_alias_template_def find_all_visit visit_def)

lemma content_alias_m: "''m'' \<in> message_vars content_alias_template"
  using aliases_of_self [of "''messages''" content_alias_template]
  by (auto simp add: message_vars_def content_alias_loops loop_over_def is_plain_access_def
      is_var_access_def)

lemma content_alias_c: "''c'' \<in> content_aliases content_alias_template"
proof -
  have "Assign (Name ''c'' ''store'') (Getitem (Name ''m'' ''load'') (Const (JStr ''content'')))
          \<in> set (find_all is_Assign content_alias_template)"
    by (simp add: content_alias_assigns)
  moreover have "is_var_or_elems_access (Getitem (Name ''m'' ''load'') (Const (JStr ''content'')))
          ''m'' (Some ''content'')"
    by (simp add: is_plain_access_def is_attr_access_def is_var_access_def)
  ultimately show ?thesis
    unfolding content_aliases_def
    using content_alias_m aliases_of_self [of "''c''" content_alias_template] by blast
qed

lemma content_alias_spec_loop: "spec_content_loop content_alias_template"
proof -
  have "For (Name ''p'' ''store'') (Name ''c'' ''load'') [] [] None False
          \<in> set (find_all is_For content_alias_template)"
    by (simp add: content_alias_loops)
  moreover have "loop_over (content_aliases content_alias_template) None
          (For (Name ''p'' ''store'') (Name ''c'' ''load'') [] [] None False)"
    using content_alias_c
    by (auto simp add: loop_over_def is_plain_access_def is_var_access_def)
  ultimately show ?thesis unfolding spec_content_loop_def by blast
qed

lemma content_alias_stage1:
  "iter_nodes_assign_var_or_elems content_alias_template ''messages'' =
     Some (Gen [(content_alias_template, ''messages'')] None)"
  unfolding iter_nodes_assign_var_or_elems_def
  by (subst bfs.simps,
      simp add: content_alias_assigns is_plain_access_def is_var_access_def,
      subst bfs.simps, simp)

lemma content_alias_stage3:
  "iter_nodes_assign_content_item content_alias_template = Some (Gen [] None)"
  by (simp add: iter_nodes_assign_content_item_def iter_nodes_assign_messages_item_def
      content_alias_stage1 content_alias_loops is_plain_access_def is_var_access_def
      is_attr_access_def)

lemma content_alias_no_raise: "\<not> analysis_raises content_alias_template"
proof (rule named_loops_no_raise)
  show "assigns_plain content_alias_template"
    by (simp add: assigns_plain_def content_alias_assigns)
  show "\<forall>l \<in> set (find_all is_For content_alias_template). loop_name l \<noteq> None"
    by (simp add: content_alias_loops)
qed

theorem content_alias_counterexample:
  "parses_to content_alias_template ''t5'' = Some content_alias_template
   \<and> \<not> analysis_raises content_alias_template
   \<and> spec_content_loop content_alias_template
   \<and> detect_content_format (parses_to content_alias_template) ''t5'' FormatOpenAI
       = Some FormatString
   \<and> detect_content_format (parses_to content_alias_template) ''t5'' FormatString
       = Some FormatString"
  using content_alias_no_raise content_alias_spec_loop
  by (simp add: parses_to_def detect_content_format_def content_alias_stage3)

text \<open>
  Outside the amended claim: in the tree of \<^verbatim>\<open>{% for a, b in messages %}{% endfor %}\<close>
  the loop over \<open>messages\<close> has a tuple as target, the \<open>assert\<close> fails, and
  \<open>except Exception\<close> returns the default.
\<close>

lemma tuple_loops:
  "find_all is_For tuple_template =
     [For (Other [Name ''a'' ''store'', Name ''b'' ''store'']) (Name ''messages'' ''load'')
              [] [] None False]"
  by (simp add: tuple_template_def find_all_visit visit_def)

lemma tuple_assigns: "find_all is_Assign tuple_template = []"
  by (simp add: tuple_template_def find_all_visit visit_def)

lemma tuple_acyclic: "acyclic (alias_edges tuple_template)"
proof -
  have "alias_edges tuple_template = {}"
    by (auto simp add: alias_edges_def alias_step_def tuple_assigns)
  then show ?thesis by (simp add: acyclic_def)
qed

lemma tuple_raises: "analysis_raises tuple_template"
proof -
  have "\<not> message_loops_plain tuple_template"
    using aliases_of_self [of "''messages''" tuple_template]
    by (auto simp add: message_loops_plain_def tuple_loops loop_over_def is_plain_access_def
        is_var_access_def)
  then show ?thesis by (simp add: analysis_raises_def)
qed

lemma tuple_stage1:
  "iter_nodes_assign_var_or_elems tuple_template ''messages'' =
     Some (Gen [(tuple_template, ''messages'')] None)"
  unfolding iter_nodes_assign_var_or_elems_def
  by (subst bfs.simps, simp add: tuple_assigns, subst bfs.simps, simp)

lemma tuple_stage3:
  "iter_nodes_assign_content_item tuple_template = Some (Gen [] (Some AssertionError))"
  by (simp add: iter_nodes_assign_content_item_def iter_nodes_assign_messages_item_def
      tuple_stage1 tuple_loops is_plain_access_def is_var_access_def)

lemma tuple_target_default:
  "detect_content_format (parses_to tuple_template) ''t4'' dflt = Some dflt"
  by (simp add: parses_to_def detect_content_format_def tuple_stage3)

end
